theory Spec2Isabelle
  imports Main "HOL-Library.Word"
begin

unbundle bit_operations_syntax

section \<open>Exceptions\<close>

text \<open>
  The exceptions that can leave the functions of \<^verbatim>\<open>webhook.py\<close>.  A function that can
  raise returns the exception as a value next to the storage it leaves behind: nothing in
  the module wraps a whole request in a transaction, so what was written before an
  exception stays written.
\<close>

datatype exn =
    AttributeError
  | DoesNotExist
  | MultipleObjectsReturned
  | Http404
  | IntegrityError
  | ValueError

section \<open>parse_raw_user\<close>

text \<open>
  \<^verbatim>\<open>re.search('(?<=<).*(?=>$)', raw).group(0)\<close>.
  A text is the list of its characters, and \<^verbatim>\<open>len\<close> counts them.
  The pattern is a look-behind for \<^verbatim>\<open><\<close>, a greedy \<^verbatim>\<open>.*\<close> (any character but a newline),
  and a look-ahead for \<^verbatim>\<open>>\<close> followed by \<^verbatim>\<open>$\<close>.  Without the MULTILINE flag \<^verbatim>\<open>$\<close>
  holds at the end of the string and just before a newline that ends the string.
  \<^verbatim>\<open>re.search\<close> tries the start positions from left to right; at one start position
  the greedy star first takes as many characters as it can and gives them back one at
  a time until the look-ahead holds.  When no position matches, \<^verbatim>\<open>re.search\<close> returns
  \<^verbatim>\<open>None\<close> and \<^verbatim>\<open>.group(0)\<close> raises AttributeError.
\<close>

definition newline :: char where
  "newline = CHR 0x0A"

definition at_dollar :: "string \<Rightarrow> nat \<Rightarrow> bool" where
  "at_dollar s p \<longleftrightarrow> p = length s \<or> (Suc p = length s \<and> s ! p = newline)"

definition lookbehind_lt :: "string \<Rightarrow> nat \<Rightarrow> bool" where
  "lookbehind_lt s i \<longleftrightarrow> 0 < i \<and> i \<le> length s \<and> s ! (i - 1) = CHR ''<''"

definition lookahead_gt_end :: "string \<Rightarrow> nat \<Rightarrow> bool" where
  "lookahead_gt_end s p \<longleftrightarrow> p < length s \<and> s ! p = CHR ''>'' \<and> at_dollar s (Suc p)"

definition dot_star_max :: "string \<Rightarrow> nat \<Rightarrow> nat" where
  "dot_star_max s i = length (takeWhile (\<lambda>c. c \<noteq> newline) (drop i s))"

fun backtrack :: "string \<Rightarrow> nat \<Rightarrow> nat \<Rightarrow> nat option" where
  "backtrack s i 0 = (if lookahead_gt_end s i then Some 0 else None)"
| "backtrack s i (Suc j) =
     (if lookahead_gt_end s (i + Suc j) then Some (Suc j) else backtrack s i j)"

definition match_at :: "string \<Rightarrow> nat \<Rightarrow> string option" where
  "match_at s i =
     (if lookbehind_lt s i
      then map_option (\<lambda>j. take j (drop i s)) (backtrack s i (dot_star_max s i))
      else None)"

fun search_from :: "string \<Rightarrow> nat list \<Rightarrow> string option" where
  "search_from s [] = None"
| "search_from s (i # is) =
     (case match_at s i of Some m \<Rightarrow> Some m | None \<Rightarrow> search_from s is)"

definition re_search :: "string \<Rightarrow> string option" where
  "re_search s = search_from s [0..<Suc (length s)]"

definition parse_raw_user :: "string \<Rightarrow> exn + string" where
  "parse_raw_user raw =
     (case re_search raw of None \<Rightarrow> Inl AttributeError | Some m \<Rightarrow> Inr m)"

text \<open>
  The reading of the specification, for comparison: the text strictly between the last
  \<^verbatim>\<open><\<close> and the final character.
\<close>

definition spec_between_last_lt_and_trailing_gt :: "string \<Rightarrow> string" where
  "spec_between_last_lt_and_trailing_gt raw =
     butlast (rev (takeWhile (\<lambda>c. c \<noteq> CHR ''<'') (rev raw)))"

text \<open>
  \<^verbatim>\<open>commit['author']['raw'].split('<')[0].strip()\<close>, the display name given to a new
  author.  \<^verbatim>\<open>strip\<close> removes the white space of Python's text type with a code point
  below 256.
\<close>

definition is_space :: "char \<Rightarrow> bool" where
  "is_space c \<longleftrightarrow>
     (let n = (of_char c :: nat)
      in (9 \<le> n \<and> n \<le> 13) \<or> (28 \<le> n \<and> n \<le> 32) \<or> n = 133 \<or> n = 160)"

definition strip :: "string \<Rightarrow> string" where
  "strip s = rev (dropWhile is_space (rev (dropWhile is_space s)))"

definition split_lt_first :: "string \<Rightarrow> string" where
  "split_lt_first s = takeWhile (\<lambda>c. c \<noteq> CHR ''<'') s"

section \<open>Storage\<close>

text \<open>
  The rows of \<^verbatim>\<open>sentry.models\<close> that the module reads and writes, with the columns it
  uses.  A commit refers to its author by the author's id; the id of a commit row itself
  is never read and is left out.  \<^verbatim>\<open>date_added\<close> is an instant (seconds, UTC).
\<close>

record organization =
  org_id :: nat

record repository =
  repo_id :: nat
  repo_organization_id :: nat
  repo_provider :: string
  repo_external_id :: string
  repo_config_name :: "string option"

record commit_author =
  author_id :: nat
  author_organization_id :: nat
  author_email :: string
  author_name :: string

record commit_row =
  commit_repository_id :: nat
  commit_organization_id :: nat
  commit_key :: string
  commit_message :: string
  commit_author_id :: "nat option"
  commit_date_added :: int

record db =
  organizations :: "organization list"
  repositories :: "repository list"
  authors :: "commit_author list"
  commits :: "commit_row list"

subsection \<open>The datastore\<close>

text \<open>
  Modelled from the spec: the operations of the datastore.  \<^verbatim>\<open>sentry.models\<close> and the
  object managers behind \<^verbatim>\<open>Repository.objects\<close>, \<^verbatim>\<open>CommitAuthor.objects\<close> and
  \<^verbatim>\<open>Commit.objects\<close> are imported by the module and are not among the sources.  The
  specification describes them at their interface: a lookup of an organization by id, a
  lookup of a repository by (organization, provider, external id), atomic transactions,
  and unique constraints on (organization, email) for authors and on (repository, commit
  key) for commits.  A lookup that must return one row raises DoesNotExist on none and
  MultipleObjectsReturned on several; \<^verbatim>\<open>save\<close> updates the row with the id of the object.
\<close>

definition organization_get_from_cache :: "nat \<Rightarrow> db \<Rightarrow> exn + organization" where
  "organization_get_from_cache i d =
     (case filter (\<lambda>r. org_id r = i) (organizations d) of
        [] \<Rightarrow> Inl DoesNotExist
      | r # _ \<Rightarrow> Inr r)"

definition repository_get :: "nat \<Rightarrow> string \<Rightarrow> string \<Rightarrow> db \<Rightarrow> exn + repository" where
  "repository_get organization_id provider external_id d =
     (case filter (\<lambda>r. repo_organization_id r = organization_id
                        \<and> repo_provider r = provider
                        \<and> repo_external_id r = external_id) (repositories d) of
        [] \<Rightarrow> Inl DoesNotExist
      | [r] \<Rightarrow> Inr r
      | _ \<Rightarrow> Inl MultipleObjectsReturned)"

definition repository_save :: "repository \<Rightarrow> db \<Rightarrow> db" where
  "repository_save r d =
     d\<lparr>repositories := map (\<lambda>x. if repo_id x = repo_id r then r else x) (repositories d)\<rparr>"

definition author_matches :: "nat \<Rightarrow> string \<Rightarrow> db \<Rightarrow> commit_author list" where
  "author_matches organization_id email d =
     filter (\<lambda>a. author_organization_id a = organization_id \<and> author_email a = email)
       (authors d)"

definition author_get :: "nat \<Rightarrow> string \<Rightarrow> db \<Rightarrow> exn + commit_author" where
  "author_get organization_id email d =
     (case author_matches organization_id email d of
        [] \<Rightarrow> Inl DoesNotExist
      | [a] \<Rightarrow> Inr a
      | _ \<Rightarrow> Inl MultipleObjectsReturned)"

definition next_author_id :: "db \<Rightarrow> nat" where
  "next_author_id d = Suc (fold max (map author_id (authors d)) 0)"

text \<open>
  Modelled from the spec: the insert of an author row, refused with IntegrityError by the
  unique constraint on (organization, email).  A new row gets an id above all ids in use.
\<close>

definition author_insert :: "nat \<Rightarrow> string \<Rightarrow> string \<Rightarrow> db \<Rightarrow> (exn + commit_author) \<times> db" where
  "author_insert organization_id email name d =
     (if author_matches organization_id email d \<noteq> [] then (Inl IntegrityError, d)
      else
        (let a = \<lparr>author_id = next_author_id d, author_organization_id = organization_id,
                  author_email = email, author_name = name\<rparr>
         in (Inr a, d\<lparr>authors := authors d @ [a]\<rparr>)))"

text \<open>
  Modelled from the spec: \<^verbatim>\<open>get_or_create\<close>, the atomic get-or-create of the specification.
  A lookup; when it finds nothing, an insert; when the insert is refused by the unique
  constraint (another writer was faster), the lookup again.
\<close>

definition get_or_create :: "nat \<Rightarrow> string \<Rightarrow> string \<Rightarrow> db \<Rightarrow> (exn + commit_author) \<times> db" where
  "get_or_create organization_id email name d =
     (case author_get organization_id email d of
        Inr a \<Rightarrow> (Inr a, d)
      | Inl DoesNotExist \<Rightarrow>
          (case author_insert organization_id email name d of
             (Inr a, d') \<Rightarrow> (Inr a, d')
           | (Inl IntegrityError, d') \<Rightarrow>
               (case author_get organization_id email d' of
                  Inr a \<Rightarrow> (Inr a, d')
                | Inl _ \<Rightarrow> (Inl IntegrityError, d'))
           | (Inl e, d') \<Rightarrow> (Inl e, d'))
      | Inl e \<Rightarrow> (Inl e, d))"

definition commit_exists :: "nat \<Rightarrow> string \<Rightarrow> db \<Rightarrow> bool" where
  "commit_exists repository_id key d \<longleftrightarrow>
     (\<exists>c \<in> set (commits d). commit_repository_id c = repository_id \<and> commit_key c = key)"

text \<open>
  Modelled from the spec: the insert of a commit row, refused with IntegrityError by the
  unique constraint on (repository, key).
\<close>

definition commit_create :: "commit_row \<Rightarrow> db \<Rightarrow> exn option \<times> db" where
  "commit_create row d =
     (if commit_exists (commit_repository_id row) (commit_key row) d
      then (Some IntegrityError, d)
      else (None, d\<lparr>commits := commits d @ [row]\<rparr>))"

text \<open>
  Modelled from the spec: the atomic unit.  \<^verbatim>\<open>with transaction.atomic():\<close> runs its body;
  when the body raises, the writes of the body are rolled back and the exception goes on.
\<close>

definition atomic :: "(db \<Rightarrow> exn option \<times> db) \<Rightarrow> db \<Rightarrow> exn option \<times> db" where
  "atomic body d =
     (case body d of
        (Some e, _) \<Rightarrow> (Some e, d)
      | (None, d') \<Rightarrow> (None, d'))"

section \<open>The push event\<close>

text \<open>
  The part of the provider's push event that the handler reads, typed as the provider's
  schema types it.  A change may come without its \<^verbatim>\<open>commits\<close> key.
\<close>

record commit_payload =
  hash :: string
  message :: string
  author_raw :: string
  date :: string

record change =
  change_commits :: "commit_payload list option"

record event =
  repository_uuid :: string
  repository_full_name :: string
  push_changes :: "change list"

type_synonym author_memo = "string \<rightharpoonup> commit_author"

section \<open>PushEventWebhook\<close>

text \<open>
  Two collaborators are parameters of the handler:
  \<^verbatim>\<open>RepositoryProvider.should_ignore_commit\<close> (\<open>ign\<close>) and
  \<^verbatim>\<open>dateutil.parser.parse(...).astimezone(timezone.utc)\<close> (\<open>pd\<close>, \<open>None\<close> where the
  parser raises ValueError).
\<close>

text \<open>Lines 66 to 77: the author of a commit, through the memo of the request.\<close>

definition resolve_author ::
  "organization \<Rightarrow> commit_payload \<Rightarrow> string \<Rightarrow> author_memo \<times> db
     \<Rightarrow> (exn + commit_author option) \<times> author_memo \<times> db" where
  "resolve_author org commit email st =
     (case st of (memo, d) \<Rightarrow>
        if length email > 75 then (Inr None, memo, d)
        else
          (case memo email of
             None \<Rightarrow>
               (case get_or_create (org_id org) email
                       (strip (split_lt_first (author_raw commit))) d of
                  (Inl e, d') \<Rightarrow> (Inl e, memo, d')
                | (Inr a, d') \<Rightarrow> (Inr (Some a), memo(email \<mapsto> a), d'))
           | Some a \<Rightarrow> (Inr (Some a), memo, d)))"

text \<open>
  Lines 78 to 93: the insert of the commit in its atomic block; the arguments of
  \<^verbatim>\<open>Commit.objects.create\<close>, the date among them, are evaluated inside the block, and
  only IntegrityError is caught.
\<close>

definition create_commit ::
  "(string \<Rightarrow> int option) \<Rightarrow> organization \<Rightarrow> nat \<Rightarrow> commit_payload
     \<Rightarrow> commit_author option \<Rightarrow> db \<Rightarrow> exn option \<times> db" where
  "create_commit pd org repository_id commit author d =
     (case atomic (\<lambda>d0.
              case pd (date commit) of
                None \<Rightarrow> (Some ValueError, d0)
              | Some t \<Rightarrow>
                  commit_create
                    \<lparr>commit_repository_id = repository_id,
                     commit_organization_id = org_id org,
                     commit_key = hash commit,
                     commit_message = message commit,
                     commit_author_id = map_option author_id author,
                     commit_date_added = t\<rparr> d0) d of
        (Some IntegrityError, d') \<Rightarrow> (None, d')
      | (r, d') \<Rightarrow> (r, d'))"

text \<open>Lines 59 to 93: the body of the inner loop.\<close>

definition process_commit ::
  "(string \<Rightarrow> bool) \<Rightarrow> (string \<Rightarrow> int option) \<Rightarrow> organization \<Rightarrow> nat
     \<Rightarrow> commit_payload \<Rightarrow> author_memo \<times> db \<Rightarrow> exn option \<times> author_memo \<times> db" where
  "process_commit ign pd org repository_id commit st =
     (if ign (message commit) then (None, st)
      else
        (case parse_raw_user (author_raw commit) of
           Inl e \<Rightarrow> (Some e, st)
         | Inr email \<Rightarrow>
             (case resolve_author org commit email st of
                (Inl e, memo', d') \<Rightarrow> (Some e, memo', d')
              | (Inr author, memo', d') \<Rightarrow>
                  (case create_commit pd org repository_id commit author d' of
                     (r, d'') \<Rightarrow> (r, memo', d'')))))"

fun process_commits ::
  "(string \<Rightarrow> bool) \<Rightarrow> (string \<Rightarrow> int option) \<Rightarrow> organization \<Rightarrow> nat
     \<Rightarrow> commit_payload list \<Rightarrow> author_memo \<times> db \<Rightarrow> exn option \<times> author_memo \<times> db" where
  "process_commits ign pd org repository_id [] st = (None, st)"
| "process_commits ign pd org repository_id (c # cs) st =
     (case process_commit ign pd org repository_id c st of
        (Some e, st') \<Rightarrow> (Some e, st')
      | (None, st') \<Rightarrow> process_commits ign pd org repository_id cs st')"

text \<open>\<^verbatim>\<open>change.get('commits', [])\<close>\<close>

definition get_commits :: "change \<Rightarrow> commit_payload list" where
  "get_commits ch = (case change_commits ch of None \<Rightarrow> [] | Some cs \<Rightarrow> cs)"

fun process_changes ::
  "(string \<Rightarrow> bool) \<Rightarrow> (string \<Rightarrow> int option) \<Rightarrow> organization \<Rightarrow> nat
     \<Rightarrow> change list \<Rightarrow> author_memo \<times> db \<Rightarrow> exn option \<times> author_memo \<times> db" where
  "process_changes ign pd org repository_id [] st = (None, st)"
| "process_changes ign pd org repository_id (ch # chs) st =
     (case process_commits ign pd org repository_id (get_commits ch) st of
        (Some e, st') \<Rightarrow> (Some e, st')
      | (None, st') \<Rightarrow> process_changes ign pd org repository_id chs st')"

text \<open>\<^verbatim>\<open>PushEventWebhook.__call__\<close>: the outcome and the storage it leaves.\<close>

definition sync_name :: "repository \<Rightarrow> event \<Rightarrow> db \<Rightarrow> db" where
  "sync_name repo ev d =
     (if repo_config_name repo \<noteq> Some (repository_full_name ev)
      then repository_save (repo\<lparr>repo_config_name := Some (repository_full_name ev)\<rparr>) d
      else d)"

definition PushEventWebhook_call ::
  "(string \<Rightarrow> bool) \<Rightarrow> (string \<Rightarrow> int option) \<Rightarrow> organization \<Rightarrow> event \<Rightarrow> db
     \<Rightarrow> exn option \<times> db" where
  "PushEventWebhook_call ign pd org ev d =
     (case repository_get (org_id org) ''bitbucket'' (repository_uuid ev) d of
        Inl DoesNotExist \<Rightarrow> (Some Http404, d)
      | Inl e \<Rightarrow> (Some e, d)
      | Inr repo \<Rightarrow>
          (case process_changes ign pd org (repo_id repo) (push_changes ev)
                  (Map.empty, sync_name repo ev d) of
             (r, memo, d') \<Rightarrow> (r, d')))"

section \<open>BitbucketWebhookEndpoint\<close>

datatype ip_address = IPv4Address "32 word" | IPv6Address "128 word"

text \<open>\<^verbatim>\<open>ipaddress.ip_network(u'104.192.143.0/24')\<close>: network address and netmask.\<close>

definition BITBUCKET_IP_RANGE :: "32 word \<times> 32 word" where
  "BITBUCKET_IP_RANGE = (0x68C08F00, 0xFFFFFF00)"

text \<open>Membership in an IPv4 network; an address of the other version is never a member.\<close>

fun in_network :: "ip_address \<Rightarrow> 32 word \<times> 32 word \<Rightarrow> bool" where
  "in_network (IPv4Address a) (network_address, netmask) \<longleftrightarrow>
     a AND netmask = network_address"
| "in_network (IPv6Address a) (network_address, netmask) \<longleftrightarrow> False"

datatype handler = PushEventWebhook

definition get_handler :: "string \<Rightarrow> handler option" where
  "get_handler event_type =
     (if event_type = ''repo:push'' then Some PushEventWebhook else None)"

text \<open>
  The request as the view reads it: the method, the body, the \<^verbatim>\<open>HTTP_X_EVENT_KEY\<close>
  entry of \<^verbatim>\<open>request.META\<close> when there is one, and the parsed \<^verbatim>\<open>REMOTE_ADDR\<close>.
\<close>

record request =
  req_method :: string
  req_body :: string
  http_x_event_key :: "string option"
  remote_addr :: ip_address

datatype response = HttpResponse nat

text \<open>
  \<^verbatim>\<open>post\<close>; \<open>loads\<close> is \<^verbatim>\<open>json.loads(body.decode('utf-8'))\<close> into the typed event,
  \<open>None\<close> where it raises JSONDecodeError.  An exception of the handler leaves \<^verbatim>\<open>post\<close>
  uncaught.
\<close>

definition post ::
  "(string \<Rightarrow> bool) \<Rightarrow> (string \<Rightarrow> int option) \<Rightarrow> (string \<Rightarrow> event option)
     \<Rightarrow> request \<Rightarrow> nat \<Rightarrow> db \<Rightarrow> (exn + response) \<times> db" where
  "post ign pd loads req organization_id d =
     (case organization_get_from_cache organization_id d of
        Inl _ \<Rightarrow> (Inr (HttpResponse 400), d)
      | Inr org \<Rightarrow>
          if req_body req = [] then (Inr (HttpResponse 400), d)
          else
            (case http_x_event_key req of
               None \<Rightarrow> (Inr (HttpResponse 400), d)
             | Some event_type \<Rightarrow>
                 (case get_handler event_type of
                    None \<Rightarrow> (Inr (HttpResponse 204), d)
                  | Some PushEventWebhook \<Rightarrow>
                      if \<not> in_network (remote_addr req) BITBUCKET_IP_RANGE
                      then (Inr (HttpResponse 401), d)
                      else
                        (case loads (req_body req) of
                           None \<Rightarrow> (Inr (HttpResponse 400), d)
                         | Some ev \<Rightarrow>
                             (case PushEventWebhook_call ign pd org ev d of
                                (Some e, d') \<Rightarrow> (Inl e, d')
                              | (None, d') \<Rightarrow> (Inr (HttpResponse 204), d'))))))"

definition dispatch ::
  "(string \<Rightarrow> bool) \<Rightarrow> (string \<Rightarrow> int option) \<Rightarrow> (string \<Rightarrow> event option)
     \<Rightarrow> request \<Rightarrow> nat \<Rightarrow> db \<Rightarrow> (exn + response) \<times> db" where
  "dispatch ign pd loads req organization_id d =
     (if req_method req \<noteq> ''POST'' then (Inr (HttpResponse 405), d)
      else post ign pd loads req organization_id d)"

section \<open>Deliveries in sequence and storage writes in any order\<close>

text \<open>
  A list of deliveries to the handler, one after the other, each with its own
  organization and event; a delivery that raises leaves behind what it wrote.
\<close>

fun deliver_all ::
  "(string \<Rightarrow> bool) \<Rightarrow> (string \<Rightarrow> int option) \<Rightarrow> (organization \<times> event) list
     \<Rightarrow> db \<Rightarrow> db" where
  "deliver_all ign pd [] d = d"
| "deliver_all ign pd ((org, ev) # rest) d =
     deliver_all ign pd rest (snd (PushEventWebhook_call ign pd org ev d))"

text \<open>
  The writes the handler sends to the datastore.  Requests served at the same time reach
  the datastore as some interleaving of such writes, each carried out as a whole.
\<close>

datatype storage_write =
    AuthorInsert nat string string
  | CommitCreate commit_row
  | RepositorySave repository

fun apply_write :: "storage_write \<Rightarrow> db \<Rightarrow> db" where
  "apply_write (AuthorInsert organization_id email name) d =
     snd (author_insert organization_id email name d)"
| "apply_write (CommitCreate row) d = snd (commit_create row d)"
| "apply_write (RepositorySave r) d = repository_save r d"

definition authors_unique :: "db \<Rightarrow> bool" where
  "authors_unique d \<longleftrightarrow>
     distinct (map (\<lambda>a. (author_organization_id a, author_email a)) (authors d))"

text \<open>
  The commits of an event in the order of the two loops, and the commits whose raw author
  and date the handler can read.
\<close>

definition event_commits :: "event \<Rightarrow> commit_payload list" where
  "event_commits ev = concat (map get_commits (push_changes ev))"

definition parsable :: "(string \<Rightarrow> int option) \<Rightarrow> commit_payload \<Rightarrow> bool" where
  "parsable pd c \<longleftrightarrow> \<not> isl (parse_raw_user (author_raw c)) \<and> pd (date c) \<noteq> None"

text \<open>
  \<open>covered_by d1 d2\<close>: every (repository, key) that has a commit row in \<open>d1\<close> has one in
  \<open>d2\<close>, and every (organization, email) that has exactly one author row in \<open>d1\<close> has
  exactly one in \<open>d2\<close>.
\<close>

definition covered_by :: "db \<Rightarrow> db \<Rightarrow> bool" where
  "covered_by d1 d2 \<longleftrightarrow>
     (\<forall>rid k. commit_exists rid k d1 \<longrightarrow> commit_exists rid k d2)
     \<and> (\<forall>organization_id email.
            length (author_matches organization_id email d1) = 1
            \<longrightarrow> length (author_matches organization_id email d2) = 1)"

definition between_first_lt_and_trailing_gt :: "string \<Rightarrow> string" where
  "between_first_lt_and_trailing_gt raw =
     butlast (tl (dropWhile (\<lambda>c. c \<noteq> CHR ''<'') raw))"

section \<open>A worked scenario\<close>

text \<open>
  Organization 1 owns a repository with external id \<^verbatim>\<open>abc-123\<close>, stored under the name
  \<^verbatim>\<open>old/name\<close>; the provider pushes one commit by Jane under the name \<^verbatim>\<open>new/name\<close>.
  The ignore rule and the date parser are fixed to simple instances.
\<close>

definition example_ignore :: "string \<Rightarrow> bool" where
  "example_ignore msg \<longleftrightarrow> msg = ''#skipsentry''"

definition example_parse_date :: "string \<Rightarrow> int option" where
  "example_parse_date s = (if s = ''2021-01-01T00:00:00Z'' then Some 1609459200 else None)"

definition example_org :: organization where
  "example_org = \<lparr>org_id = 1\<rparr>"

definition example_repo :: repository where
  "example_repo =
     \<lparr>repo_id = 7, repo_organization_id = 1, repo_provider = ''bitbucket'',
      repo_external_id = ''abc-123'', repo_config_name = Some ''old/name''\<rparr>"

definition example_db :: db where
  "example_db =
     \<lparr>organizations = [example_org], repositories = [example_repo],
      authors = [], commits = []\<rparr>"

definition commit_by :: "string \<Rightarrow> string \<Rightarrow> string \<Rightarrow> commit_payload" where
  "commit_by h msg raw =
     \<lparr>hash = h, message = msg, author_raw = raw, date = ''2021-01-01T00:00:00Z''\<rparr>"

definition push_of :: "commit_payload list \<Rightarrow> event" where
  "push_of cs =
     \<lparr>repository_uuid = ''abc-123'', repository_full_name = ''new/name'',
      push_changes = [\<lparr>change_commits = Some cs\<rparr>]\<rparr>"

definition example_event :: event where
  "example_event = push_of [commit_by ''deadbeef'' ''fix bug'' ''Jane <jane@x.com>'']"

definition long_email :: string where
  "long_email = replicate 70 (CHR ''a'') @ ''@x.com''"

definition long_raw :: string where
  "long_raw = ''Jane <'' @ long_email @ ''>''"

definition example_request :: request where
  "example_request =
     \<lparr>req_method = ''POST'', req_body = ''{}'', http_x_event_key = Some ''repo:push'',
      remote_addr = IPv4Address 0x0A000001\<rparr>"

definition jane :: commit_author where
  "jane =
     \<lparr>author_id = 1, author_organization_id = 1, author_email = ''jane@x.com'',
      author_name = ''Jane''\<rparr>"

definition bob :: commit_author where
  "bob =
     \<lparr>author_id = 2, author_organization_id = 1, author_email = ''bob@x.com'',
      author_name = ''Bob''\<rparr>"

definition row_by :: "string \<Rightarrow> string \<Rightarrow> nat option \<Rightarrow> commit_row" where
  "row_by h msg a =
     \<lparr>commit_repository_id = 7, commit_organization_id = 1, commit_key = h,
      commit_message = msg, commit_author_id = a, commit_date_added = 1609459200\<rparr>"

definition renamed_db :: db where
  "renamed_db =
     example_db\<lparr>repositories := [example_repo\<lparr>repo_config_name := Some ''new/name''\<rparr>]\<rparr>"

definition delivered_db :: db where
  "delivered_db =
     renamed_db\<lparr>authors := [jane], commits := [row_by ''deadbeef'' ''fix bug'' (Some 1)]\<rparr>"

section \<open>Email extraction\<close>

lemma backtrack_hit: "lookahead_gt_end s (i + j) \<Longrightarrow> backtrack s i j = Some j"
  by (cases j) simp_all

lemma search_from_skip:
  "\<forall>i \<in> set is1. match_at s i = None \<Longrightarrow> search_from s (is1 @ is2) = search_from s is2"
  by (induction is1) simp_all

lemma parse_raw_user_split:
  assumes "CHR ''<'' \<notin> set pre" and "newline \<notin> set mid"
  shows "parse_raw_user (pre @ ''<'' @ mid @ ''>'') = Inr mid"
proof -
  let ?s = "pre @ ''<'' @ mid @ ''>''"
  let ?i = "Suc (length pre)"
  have early: "\<forall>i \<in> set [0..<?i]. match_at ?s i = None"
  proof
    fix i assume "i \<in> set [0..<?i]"
    then have i: "i \<le> length pre" by auto
    have "\<not> lookbehind_lt ?s i"
    proof (cases i)
      case 0 then show ?thesis by (simp add: lookbehind_lt_def)
    next
      case (Suc k)
      with i have k: "k < length pre" by simp
      then have "?s ! k = pre ! k" by (simp add: nth_append)
      moreover have "pre ! k \<in> set pre" using k by simp
      ultimately have "?s ! k \<noteq> CHR ''<''" using assms(1) by metis
      then show ?thesis using Suc by (simp add: lookbehind_lt_def)
    qed
    then show "match_at ?s i = None" by (simp add: match_at_def)
  qed
  have lb: "lookbehind_lt ?s ?i" by (simp add: lookbehind_lt_def nth_append)
  have dr: "drop ?i ?s = mid @ ''>''" by simp
  have "takeWhile (\<lambda>c. c \<noteq> newline) (mid @ ''>'') = mid @ ''>''"
    using assms(2) by (auto simp: newline_def)
  then have mx: "dot_star_max ?s ?i = Suc (length mid)"
    using dr by (simp add: dot_star_max_def)
  have no: "\<not> lookahead_gt_end ?s (?i + Suc (length mid))"
    by (simp add: lookahead_gt_end_def)
  have yes: "lookahead_gt_end ?s (?i + length mid)"
    by (simp add: lookahead_gt_end_def at_dollar_def nth_append)
  have "backtrack ?s ?i (Suc (length mid)) = Some (length mid)"
    using no backtrack_hit [OF yes] by simp
  then have m: "match_at ?s ?i = Some mid"
    using lb mx dr by (simp add: match_at_def)
  have "Suc (length ?s) = ?i + (length mid + 2)" by simp
  then have "[0..<Suc (length ?s)] = [0..<?i + (length mid + 2)]" by (rule arg_cong)
  also have "\<dots> = [0..<?i] @ [?i..<?i + (length mid + 2)]"
    by (rule upt_add_eq_append) simp
  also have "[?i..<?i + (length mid + 2)] = ?i # [Suc ?i..<?i + (length mid + 2)]"
    by (rule upt_conv_Cons) simp
  finally have "re_search ?s = search_from ?s (?i # [Suc ?i..<?i + (length mid + 2)])"
    unfolding re_search_def using search_from_skip [OF early] by metis
  then have "re_search ?s = Some mid"
    using m by simp
  then show ?thesis by (simp add: parse_raw_user_def)
qed

lemma no_lt_no_match:
  assumes "CHR ''<'' \<notin> set s"
  shows "search_from s is = None"
proof (induction "is")
  case Nil show ?case by simp
next
  case (Cons i "is")
  have "\<not> lookbehind_lt s i"
  proof
    assume "lookbehind_lt s i"
    then have "i - 1 < length s" "s ! (i - 1) = CHR ''<''"
      by (auto simp: lookbehind_lt_def)
    then show False using assms nth_mem by metis
  qed
  then show ?case using Cons by (simp add: match_at_def)
qed

lemma parse_raw_user_no_lt:
  "CHR ''<'' \<notin> set raw \<Longrightarrow> parse_raw_user raw = Inl AttributeError"
  by (simp add: parse_raw_user_def re_search_def no_lt_no_match)

text \<open>
  Claim C4, as the code has it.  For every raw author string that contains a \<^verbatim>\<open><\<close>, ends
  with \<^verbatim>\<open>>\<close> and has no newline from its first \<^verbatim>\<open><\<close> on, the extracted email is the text
  strictly between the first \<^verbatim>\<open><\<close> and the trailing \<^verbatim>\<open>>\<close>: the search takes the leftmost
  start and the star is greedy.
\<close>

theorem email_between_first_lt_and_trailing_gt:
  assumes "CHR ''<'' \<in> set raw" and "last raw = CHR ''>''"
      and "newline \<notin> set (dropWhile (\<lambda>c. c \<noteq> CHR ''<'') raw)"
  shows "parse_raw_user raw = Inr (between_first_lt_and_trailing_gt raw)"
proof -
  let ?P = "\<lambda>c. c \<noteq> CHR ''<''"
  define pre where "pre = takeWhile ?P raw"
  define rest where "rest = tl (dropWhile ?P raw)"
  have ne: "dropWhile ?P raw \<noteq> []" using assms(1) by auto
  then have "hd (dropWhile ?P raw) = CHR ''<''" using hd_dropWhile [of ?P raw] by simp
  then have dw: "dropWhile ?P raw = CHR ''<'' # rest"
    using ne by (cases "dropWhile ?P raw") (simp_all add: rest_def)
  have raw: "raw = pre @ CHR ''<'' # rest"
    using takeWhile_dropWhile_id [of ?P raw] dw by (simp add: pre_def)
  have "rest \<noteq> []"
  proof
    assume "rest = []"
    then have "last raw = CHR ''<''" using raw by simp
    then show False using assms(2) by simp
  qed
  then have rest: "rest = butlast rest @ [last rest]" by simp
  have "last rest = CHR ''>''" using raw \<open>rest \<noteq> []\<close> assms(2) by simp
  then have split: "raw = pre @ ''<'' @ butlast rest @ ''>''"
    using raw rest by simp
  have p: "CHR ''<'' \<notin> set pre"
    using set_takeWhileD [of "CHR ''<''" ?P raw] by (auto simp: pre_def)
  have "set (butlast rest) \<subseteq> set rest"
    by (auto dest: in_set_butlastD)
  then have "set (butlast rest) \<subseteq> set (dropWhile ?P raw)"
    unfolding dw by auto
  then have m: "newline \<notin> set (butlast rest)" using assms(3) by blast
  have b: "between_first_lt_and_trailing_gt raw = butlast rest"
    by (simp add: between_first_lt_and_trailing_gt_def rest_def)
  have "parse_raw_user (pre @ ''<'' @ butlast rest @ ''>'') = Inr (butlast rest)"
    by (rule parse_raw_user_split [OF p m])
  then have "parse_raw_user raw = Inr (butlast rest)"
    by (subst split)
  then show ?thesis by (simp only: b)
qed

theorem email_between_first_lt_and_trailing_gt_witness:
  "CHR ''<'' \<in> set ''Jane Doe <jane@example.com>''
   \<and> last ''Jane Doe <jane@example.com>'' = CHR ''>''
   \<and> newline \<notin> set (dropWhile (\<lambda>c. c \<noteq> CHR ''<'') ''Jane Doe <jane@example.com>'')
   \<and> parse_raw_user ''Jane Doe <jane@example.com>'' = Inr ''jane@example.com''"
proof -
  have a: "CHR ''<'' \<in> set ''Jane Doe <jane@example.com>''" by simp
  have b: "last ''Jane Doe <jane@example.com>'' = CHR ''>''" by simp
  have c: "newline \<notin> set (dropWhile (\<lambda>c. c \<noteq> CHR ''<'') ''Jane Doe <jane@example.com>'')"
    by (simp add: newline_def)
  show ?thesis
    using a b c email_between_first_lt_and_trailing_gt [OF a b c]
    by (simp add: between_first_lt_and_trailing_gt_def)
qed

text \<open>
  With two bracketed segments the extracted text starts after the first \<^verbatim>\<open><\<close>, not after
  the last one.
\<close>

theorem email_last_lt_counterexample:
  "CHR ''<'' \<in> set ''Jane <jd> <jane@example.com>''
   \<and> last ''Jane <jd> <jane@example.com>'' = CHR ''>''
   \<and> spec_between_last_lt_and_trailing_gt ''Jane <jd> <jane@example.com>'' = ''jane@example.com''
   \<and> parse_raw_user ''Jane <jd> <jane@example.com>'' = Inr ''jd> <jane@example.com''"
proof -
  have "parse_raw_user (''Jane '' @ ''<'' @ ''jd> <jane@example.com'' @ ''>'')
          = Inr ''jd> <jane@example.com''"
    by (rule parse_raw_user_split) (simp_all add: newline_def)
  then show ?thesis by (simp add: spec_between_last_lt_and_trailing_gt_def)
qed

section \<open>The loops\<close>

lemma process_commits_append:
  "process_commits ign pd org rid (xs @ ys) st =
     (case process_commits ign pd org rid xs st of
        (Some e, st') \<Rightarrow> (Some e, st')
      | (None, st') \<Rightarrow> process_commits ign pd org rid ys st')"
  by (induction xs arbitrary: st) (auto split: prod.splits option.splits)

lemma process_changes_append:
  "process_changes ign pd org rid (xs @ ys) st =
     (case process_changes ign pd org rid xs st of
        (Some e, st') \<Rightarrow> (Some e, st')
      | (None, st') \<Rightarrow> process_changes ign pd org rid ys st')"
  by (induction xs arbitrary: st) (auto split: prod.splits option.splits)

lemma process_commit_ignored:
  "ign (message c) \<Longrightarrow> process_commit ign pd org rid c st = (None, st)"
  by (simp add: process_commit_def)

section \<open>The ignore filter\<close>

text \<open>
  Claim C9.  A commit whose message the ignore rule matches goes through the loop body
  with no author lookup, no author created and no commit row written: the memo and the
  storage come out as they went in, and the loop over a list of commits ends as it does
  on the list without that commit.
\<close>

theorem ignored_commit_leaves_no_trace:
  assumes "ign (message c)"
  shows "process_commit ign pd org rid c (memo, d) = (None, memo, d)
       \<and> process_commits ign pd org rid (before @ c # after) (memo, d)
           = process_commits ign pd org rid (before @ after) (memo, d)"
proof -
  have step: "\<And>st. process_commit ign pd org rid c st = (None, st)"
    using assms by (rule process_commit_ignored)
  have "\<And>st. process_commits ign pd org rid (c # after) st
              = process_commits ign pd org rid after st"
    by (simp add: step)
  then show ?thesis
    by (simp add: step process_commits_append [of _ _ _ _ before]
          split: prod.splits option.splits)
qed

theorem ignored_commit_leaves_no_trace_witness:
  "example_ignore (message (commit_by ''0a'' ''#skipsentry'' ''Jane <jane@x.com>''))
   \<and> process_commit example_ignore example_parse_date example_org 7
         (commit_by ''0a'' ''#skipsentry'' ''Jane <jane@x.com>'') (Map.empty, example_db)
       = (None, Map.empty, example_db)
   \<and> process_commits example_ignore example_parse_date example_org 7
         ([] @ commit_by ''0a'' ''#skipsentry'' ''Jane <jane@x.com>'' # []) (Map.empty, example_db)
       = process_commits example_ignore example_parse_date example_org 7
         ([] @ []) (Map.empty, example_db)"
proof -
  have h: "example_ignore (message (commit_by ''0a'' ''#skipsentry'' ''Jane <jane@x.com>''))"
    by (simp add: example_ignore_def commit_by_def)
  show ?thesis
    using h ignored_commit_leaves_no_trace [where ign = example_ignore
        and c = "commit_by ''0a'' ''#skipsentry'' ''Jane <jane@x.com>''"
        and pd = example_parse_date and org = example_org and rid = 7
        and memo = Map.empty and d = example_db and before = "[]" and after = "[]"]
    by blast
qed

section \<open>A change without commits\<close>

text \<open>
  Claim C10.  A change that has no \<^verbatim>\<open>commits\<close> key counts as a change with no commits:
  it raises nothing and writes nothing, and the handler ends as it does on the event
  without that change, so the changes after it are processed.
\<close>

theorem change_without_commits_is_empty:
  assumes "change_commits ch = None"
  shows "process_changes ign pd org rid [ch] st = (None, st)
       \<and> PushEventWebhook_call ign pd org (ev\<lparr>push_changes := before @ ch # after\<rparr>) d
           = PushEventWebhook_call ign pd org (ev\<lparr>push_changes := before @ after\<rparr>) d"
proof -
  have one: "\<And>st. process_changes ign pd org rid [ch] st = (None, st)"
    using assms by (simp add: get_commits_def)
  have "\<And>rid st. process_changes ign pd org rid (ch # after) st
              = process_changes ign pd org rid after st"
    using assms by (simp add: get_commits_def)
  then have "\<And>rid st. process_changes ign pd org rid (before @ ch # after) st
              = process_changes ign pd org rid (before @ after) st"
    by (simp add: process_changes_append [of _ _ _ _ before]
          split: prod.splits option.splits)
  then have "PushEventWebhook_call ign pd org (ev\<lparr>push_changes := before @ ch # after\<rparr>) d
           = PushEventWebhook_call ign pd org (ev\<lparr>push_changes := before @ after\<rparr>) d"
    by (simp add: PushEventWebhook_call_def sync_name_def split: sum.splits exn.splits)
  with one show ?thesis by simp
qed

theorem change_without_commits_is_empty_witness:
  "change_commits \<lparr>change_commits = None\<rparr> = None
   \<and> process_changes example_ignore example_parse_date example_org 7
        [\<lparr>change_commits = None\<rparr>] (Map.empty, example_db) = (None, Map.empty, example_db)
   \<and> PushEventWebhook_call example_ignore example_parse_date example_org
        (example_event\<lparr>push_changes := [] @ \<lparr>change_commits = None\<rparr> # push_changes example_event\<rparr>)
        example_db
     = PushEventWebhook_call example_ignore example_parse_date example_org
        (example_event\<lparr>push_changes := [] @ push_changes example_event\<rparr>) example_db"
proof -
  have h: "change_commits \<lparr>change_commits = None\<rparr> = None" by simp
  show ?thesis
    using h change_without_commits_is_empty [OF h, where ign = example_ignore
        and pd = example_parse_date and org = example_org and rid = 7
        and st = "(Map.empty, example_db)" and ev = example_event and before = "[]"
        and after = "push_changes example_event" and d = example_db]
    by blast
qed

section \<open>The address check\<close>

text \<open>
  Claim C5.  A request that reaches the handler lookup of \<^verbatim>\<open>post\<close> (its organization
  exists, its body is not empty, it has an event key) from an address outside the
  provider's network is answered 401 with the storage unchanged when the event key has a
  handler, and 204 with the storage unchanged when it has none.
\<close>

theorem outside_ip_401_or_204:
  assumes "organization_get_from_cache organization_id d = Inr org"
      and "req_body req \<noteq> []"
      and "http_x_event_key req = Some event_type"
      and "\<not> in_network (remote_addr req) BITBUCKET_IP_RANGE"
  shows "(get_handler event_type \<noteq> None \<longrightarrow>
            post ign pd loads req organization_id d = (Inr (HttpResponse 401), d))
       \<and> (get_handler event_type = None \<longrightarrow>
            post ign pd loads req organization_id d = (Inr (HttpResponse 204), d))"
  using assms by (auto simp: post_def split: handler.splits)

theorem outside_ip_401_or_204_witness:
  "organization_get_from_cache 1 example_db = Inr example_org
   \<and> req_body example_request \<noteq> []
   \<and> http_x_event_key example_request = Some ''repo:push''
   \<and> http_x_event_key (example_request\<lparr>http_x_event_key := Some ''repo:fork''\<rparr>) = Some ''repo:fork''
   \<and> \<not> in_network (remote_addr example_request) BITBUCKET_IP_RANGE
   \<and> get_handler ''repo:push'' \<noteq> None
   \<and> get_handler ''repo:fork'' = None
   \<and> post example_ignore example_parse_date (\<lambda>b. Some example_event) example_request 1 example_db
       = (Inr (HttpResponse 401), example_db)
   \<and> post example_ignore example_parse_date (\<lambda>b. Some example_event)
         (example_request\<lparr>http_x_event_key := Some ''repo:fork''\<rparr>) 1 example_db
       = (Inr (HttpResponse 204), example_db)"
proof -
  have a: "organization_get_from_cache 1 example_db = Inr example_org"
    by (simp add: organization_get_from_cache_def example_db_def example_org_def)
  have b: "req_body example_request \<noteq> []" by (simp add: example_request_def)
  have c: "http_x_event_key example_request = Some ''repo:push''"
    by (simp add: example_request_def)
  have n: "\<not> in_network (remote_addr example_request) BITBUCKET_IP_RANGE"
    by (simp add: example_request_def BITBUCKET_IP_RANGE_def)
  let ?r = "example_request\<lparr>http_x_event_key := Some ''repo:fork''\<rparr>"
  have b': "req_body ?r \<noteq> []" by (simp add: example_request_def)
  have c': "http_x_event_key ?r = Some ''repo:fork''" by simp
  have n': "\<not> in_network (remote_addr ?r) BITBUCKET_IP_RANGE"
    by (simp add: example_request_def BITBUCKET_IP_RANGE_def)
  have p: "get_handler ''repo:push'' \<noteq> None" by (simp add: get_handler_def)
  have f: "get_handler ''repo:fork'' = None" by (simp add: get_handler_def)
  show ?thesis
    using a b c n c' p f
      outside_ip_401_or_204 [OF a b c n, of example_ignore example_parse_date "\<lambda>b. Some example_event"]
      outside_ip_401_or_204 [OF a b' c' n', of example_ignore example_parse_date "\<lambda>b. Some example_event"]
    by simp
qed

section \<open>The scenario, evaluated\<close>

lemmas scenario_defs =
  example_ignore_def example_parse_date_def example_org_def example_repo_def example_db_def
  commit_by_def push_of_def example_event_def jane_def bob_def row_by_def renamed_db_def
  delivered_db_def

lemmas handler_defs =
  PushEventWebhook_call_def sync_name_def repository_get_def repository_save_def
  get_commits_def process_commit_def resolve_author_def create_commit_def atomic_def
  commit_create_def commit_exists_def get_or_create_def author_get_def author_insert_def
  author_matches_def next_author_id_def Let_def

lemma parse_jane: "parse_raw_user ''Jane <jane@x.com>'' = Inr ''jane@x.com''"
  using parse_raw_user_split [of "''Jane ''" "''jane@x.com''"] by (simp add: newline_def)

lemma parse_bob: "parse_raw_user ''Bob <bob@x.com>'' = Inr ''bob@x.com''"
  using parse_raw_user_split [of "''Bob ''" "''bob@x.com''"] by (simp add: newline_def)

lemma strip_jane: "strip (split_lt_first ''Jane <jane@x.com>'') = ''Jane''"
  by (simp add: strip_def split_lt_first_def is_space_def)

lemma strip_bob: "strip (split_lt_first ''Bob <bob@x.com>'') = ''Bob''"
  by (simp add: strip_def split_lt_first_def is_space_def)

lemma scenario_first_delivery:
  "PushEventWebhook_call example_ignore example_parse_date example_org example_event example_db
     = (None, delivered_db)"
  by (simp add: scenario_defs handler_defs parse_jane strip_jane)

lemma scenario_second_delivery:
  "PushEventWebhook_call example_ignore example_parse_date example_org example_event delivered_db
     = (None, delivered_db)"
  by (simp add: scenario_defs handler_defs parse_jane strip_jane)

text \<open>
  After the first delivery a push arrives that names the same commit hash with another
  author: Bob's author row is created, the insert of the commit is refused, and Bob's row
  stays.
\<close>

theorem author_persists_counterexample:
  "authors delivered_db = [jane]
   \<and> PushEventWebhook_call example_ignore example_parse_date example_org
        (push_of [commit_by ''deadbeef'' ''fix bug'' ''Bob <bob@x.com>'']) delivered_db
       = (None, delivered_db\<lparr>authors := [jane, bob]\<rparr>)"
  by (simp add: scenario_defs handler_defs parse_bob strip_bob)

text \<open>
  Claim C3 asks that a raw author string with no bracketed segment leaves the commit with
  a null author.  In the code \<^verbatim>\<open>re.search\<close> returns \<^verbatim>\<open>None\<close> there and \<^verbatim>\<open>.group(0)\<close> raises:
  at the raw author \<^verbatim>\<open>Jane Doe\<close> the handler ends with AttributeError after the name
  sync, and no commit row is written.
\<close>

theorem unparsable_author_raises:
  "parse_raw_user ''Jane Doe'' = Inl AttributeError
   \<and> PushEventWebhook_call example_ignore example_parse_date example_org
        (push_of [commit_by ''deadbeef'' ''fix bug'' ''Jane Doe'']) example_db
       = (Some AttributeError, renamed_db)"
  by (simp add: scenario_defs handler_defs parse_raw_user_no_lt)

text \<open>
  The AttributeError leaves both loops: a payload whose first commit has the raw author
  \<^verbatim>\<open>Jane Doe\<close> ends with no commit row at all, while its second commit, delivered
  alone, is stored.
\<close>

lemma unparsable_author_aborts_payload:
  "PushEventWebhook_call example_ignore example_parse_date example_org
        (push_of [commit_by ''deadbeef'' ''fix bug'' ''Jane Doe'',
                  commit_by ''cafe'' ''more'' ''Jane <jane@x.com>'']) example_db
       = (Some AttributeError, renamed_db)
   \<and> PushEventWebhook_call example_ignore example_parse_date example_org
        (push_of [commit_by ''cafe'' ''more'' ''Jane <jane@x.com>'']) example_db
       = (None, renamed_db\<lparr>authors := [jane], commits := [row_by ''cafe'' ''more'' (Some 1)]\<rparr>)"
  by (simp add: scenario_defs handler_defs parse_raw_user_no_lt parse_jane strip_jane)

section \<open>One commit\<close>

lemma get_or_create_cases:
  "get_or_create organization_id email name d =
     (case author_matches organization_id email d of
        [] \<Rightarrow> author_insert organization_id email name d
      | [a] \<Rightarrow> (Inr a, d)
      | _ \<Rightarrow> (Inl MultipleObjectsReturned, d))"
  by (simp add: get_or_create_def author_get_def author_insert_def Let_def split: list.splits)

lemma author_insert_fresh:
  "author_matches organization_id email d = [] \<Longrightarrow>
   author_insert organization_id email name d =
     (Inr \<lparr>author_id = next_author_id d, author_organization_id = organization_id,
           author_email = email, author_name = name\<rparr>,
      d\<lparr>authors := authors d @
           [\<lparr>author_id = next_author_id d, author_organization_id = organization_id,
             author_email = email, author_name = name\<rparr>]\<rparr>)"
  by (simp add: author_insert_def Let_def)

lemma create_commit_cases:
  "create_commit pd org rid c a d =
     (case pd (date c) of
        None \<Rightarrow> (Some ValueError, d)
      | Some t \<Rightarrow>
          (None,
           if commit_exists rid (hash c) d then d
           else d\<lparr>commits := commits d @
                  [\<lparr>commit_repository_id = rid, commit_organization_id = org_id org,
                    commit_key = hash c, commit_message = message c,
                    commit_author_id = map_option author_id a, commit_date_added = t\<rparr>]\<rparr>))"
  by (simp add: create_commit_def atomic_def commit_create_def split: option.splits)

text \<open>
  Claim C7.  A commit that is not ignored, whose extracted email is longer than 75
  characters and whose date parses, raises nothing, touches neither the memo nor the
  author table, and is stored with a null author (unless a row with its repository and
  key exists already, in which case the storage stays as it is).
\<close>

theorem oversized_email_null_author:
  assumes "\<not> ign (message c)"
      and "parse_raw_user (author_raw c) = Inr email"
      and "75 < length email"
      and "pd (date c) = Some t"
  shows "process_commit ign pd org rid c (memo, d) =
           (None, memo,
            if commit_exists rid (hash c) d then d
            else d\<lparr>commits := commits d @
                   [\<lparr>commit_repository_id = rid, commit_organization_id = org_id org,
                     commit_key = hash c, commit_message = message c,
                     commit_author_id = None, commit_date_added = t\<rparr>]\<rparr>)"
  using assms by (simp add: process_commit_def resolve_author_def create_commit_cases)

lemma parse_long: "parse_raw_user (''Jane <'' @ long_email @ ''>'') = Inr long_email"
  using parse_raw_user_split [of "''Jane ''" long_email]
  by (simp add: newline_def long_email_def)

theorem oversized_email_null_author_witness:
  "\<not> example_ignore (message (commit_by ''deadbeef'' ''fix bug'' (''Jane <'' @ long_email @ ''>'')))
   \<and> parse_raw_user (author_raw (commit_by ''deadbeef'' ''fix bug'' (''Jane <'' @ long_email @ ''>'')))
       = Inr long_email
   \<and> 75 < length long_email
   \<and> example_parse_date (date (commit_by ''deadbeef'' ''fix bug'' (''Jane <'' @ long_email @ ''>'')))
       = Some 1609459200
   \<and> process_commit example_ignore example_parse_date example_org 7
        (commit_by ''deadbeef'' ''fix bug'' (''Jane <'' @ long_email @ ''>'')) (Map.empty, renamed_db)
       = (None, Map.empty, renamed_db\<lparr>commits := [row_by ''deadbeef'' ''fix bug'' None]\<rparr>)"
proof -
  let ?c = "commit_by ''deadbeef'' ''fix bug'' (''Jane <'' @ long_email @ ''>'')"
  have a: "\<not> example_ignore (message ?c)" by (simp add: example_ignore_def commit_by_def)
  have b: "parse_raw_user (author_raw ?c) = Inr long_email"
    using parse_long by (simp add: commit_by_def)
  have c: "75 < length long_email" by (simp add: long_email_def)
  have d: "example_parse_date (date ?c) = Some 1609459200"
    by (simp add: example_parse_date_def commit_by_def)
  have "process_commit example_ignore example_parse_date example_org 7 ?c (Map.empty, renamed_db)
       = (None, Map.empty, renamed_db\<lparr>commits := [row_by ''deadbeef'' ''fix bug'' None]\<rparr>)"
    using oversized_email_null_author [where ign = example_ignore and pd = example_parse_date
        and c = ?c and email = long_email and t = 1609459200 and org = example_org
        and rid = 7 and memo = Map.empty and d = renamed_db, OF a b c d]
    by (simp add: commit_exists_def scenario_defs)
  with a b c d show ?thesis by blast
qed

text \<open>
  Claim C2, as the code has it.  Only the insert of the commit runs in the atomic block;
  the author is resolved before the block and outside it.  For a commit whose email is
  new to the memo and to the storage, when the insert of the commit fails (its key
  exists already, or its date does not parse) the author row created for it stays in
  the storage and in the memo.
\<close>

theorem new_author_row_outlives_failed_insert:
  assumes "\<not> ign (message c)"
      and "parse_raw_user (author_raw c) = Inr email"
      and "length email \<le> 75"
      and "memo email = None"
      and "author_matches (org_id org) email d = []"
      and "commit_exists rid (hash c) d \<or> pd (date c) = None"
  shows "let a = \<lparr>author_id = next_author_id d, author_organization_id = org_id org,
                  author_email = email,
                  author_name = strip (split_lt_first (author_raw c))\<rparr>
         in process_commit ign pd org rid c (memo, d) =
              (if pd (date c) = None then Some ValueError else None,
               memo(email \<mapsto> a), d\<lparr>authors := authors d @ [a]\<rparr>)"
proof -
  define a where "a = \<lparr>author_id = next_author_id d, author_organization_id = org_id org,
                       author_email = email,
                       author_name = strip (split_lt_first (author_raw c))\<rparr>"
  let ?d' = "d\<lparr>authors := authors d @ [a]\<rparr>"
  have "get_or_create (org_id org) email (strip (split_lt_first (author_raw c))) d
          = (Inr a, ?d')"
    using assms(5) by (simp add: get_or_create_cases author_insert_fresh a_def)
  then have res: "resolve_author org c email (memo, d) = (Inr (Some a), memo(email \<mapsto> a), ?d')"
    using assms(3,4) by (simp add: resolve_author_def)
  have "commit_exists rid (hash c) ?d' = commit_exists rid (hash c) d"
    by (simp add: commit_exists_def)
  then have "create_commit pd org rid c (Some a) ?d'
               = (if pd (date c) = None then Some ValueError else None, ?d')"
    using assms(6) by (auto simp: create_commit_cases split: option.splits)
  then have "process_commit ign pd org rid c (memo, d) =
              (if pd (date c) = None then Some ValueError else None,
               memo(email \<mapsto> a), ?d')"
    using assms(1,2) res by (simp add: process_commit_def)
  then show ?thesis by (simp add: a_def Let_def)
qed

theorem new_author_row_outlives_failed_insert_witness:
  "\<not> example_ignore (message (commit_by ''deadbeef'' ''fix bug'' ''Bob <bob@x.com>''))
   \<and> parse_raw_user (author_raw (commit_by ''deadbeef'' ''fix bug'' ''Bob <bob@x.com>''))
       = Inr ''bob@x.com''
   \<and> length ''bob@x.com'' \<le> 75
   \<and> Map.empty ''bob@x.com'' = (None :: commit_author option)
   \<and> author_matches (org_id example_org) ''bob@x.com'' delivered_db = []
   \<and> commit_exists 7 (hash (commit_by ''deadbeef'' ''fix bug'' ''Bob <bob@x.com>'')) delivered_db
   \<and> process_commit example_ignore example_parse_date example_org 7
         (commit_by ''deadbeef'' ''fix bug'' ''Bob <bob@x.com>'') (Map.empty, delivered_db)
       = (None, [''bob@x.com'' \<mapsto> bob], delivered_db\<lparr>authors := [jane, bob]\<rparr>)"
proof -
  let ?c = "commit_by ''deadbeef'' ''fix bug'' ''Bob <bob@x.com>''"
  have a: "\<not> example_ignore (message ?c)" by (simp add: example_ignore_def commit_by_def)
  have b: "parse_raw_user (author_raw ?c) = Inr ''bob@x.com''"
    using parse_bob by (simp add: commit_by_def)
  have l: "length ''bob@x.com'' \<le> 75" by simp
  have m: "Map.empty ''bob@x.com'' = (None :: commit_author option)" by simp
  have n: "author_matches (org_id example_org) ''bob@x.com'' delivered_db = []"
    by (simp add: author_matches_def scenario_defs)
  have e: "commit_exists 7 (hash ?c) delivered_db" by (simp add: commit_exists_def scenario_defs)
  then have e': "commit_exists 7 (hash ?c) delivered_db \<or> example_parse_date (date ?c) = None"
    by simp
  have "process_commit example_ignore example_parse_date example_org 7 ?c (Map.empty, delivered_db)
       = (None, [''bob@x.com'' \<mapsto> bob], delivered_db\<lparr>authors := [jane, bob]\<rparr>)"
    using new_author_row_outlives_failed_insert [where ign = example_ignore
        and pd = example_parse_date and rid = 7 and memo = Map.empty, OF a b l m n e']
    by (simp add: scenario_defs next_author_id_def strip_bob Let_def numeral_2_eq_2)
  with a b l m n e show ?thesis by blast
qed

section \<open>What the handler writes\<close>

lemma get_or_create_is_write:
  "snd (get_or_create organization_id email name d) = d
   \<or> snd (get_or_create organization_id email name d)
       = apply_write (AuthorInsert organization_id email name) d"
  by (simp add: get_or_create_cases split: list.splits)

lemma create_commit_is_write:
  "snd (create_commit pd org rid c a d) = d
   \<or> (\<exists>row. snd (create_commit pd org rid c a d) = apply_write (CommitCreate row) d)"
proof (cases "pd (date c)")
  case None
  then show ?thesis by (simp add: create_commit_cases)
next
  case (Some t)
  then have "snd (create_commit pd org rid c a d)
      = apply_write (CommitCreate
           \<lparr>commit_repository_id = rid, commit_organization_id = org_id org,
            commit_key = hash c, commit_message = message c,
            commit_author_id = map_option author_id a, commit_date_added = t\<rparr>) d"
    by (simp add: create_commit_cases commit_create_def)
  then show ?thesis by blast
qed

lemma process_commit_writes:
  "\<exists>ws. snd (snd (process_commit ign pd org rid c (memo, d))) = fold apply_write ws d"
proof (cases "ign (message c)")
  case True
  then have "snd (snd (process_commit ign pd org rid c (memo, d))) = fold apply_write [] d"
    by (simp add: process_commit_def)
  then show ?thesis by blast
next
  case False
  show ?thesis
  proof (cases "parse_raw_user (author_raw c)")
    case (Inl e)
    then have "snd (snd (process_commit ign pd org rid c (memo, d))) = fold apply_write [] d"
      using False by (simp add: process_commit_def)
    then show ?thesis by blast
  next
    case (Inr email)
    obtain ra memo' d' where ra: "resolve_author org c email (memo, d) = (ra, memo', d')"
      by (cases "resolve_author org c email (memo, d)") auto
    have "d' = d \<or> (\<exists>n. d' = apply_write (AuthorInsert (org_id org) email n) d)"
      using ra get_or_create_is_write [of "org_id org" email
                "strip (split_lt_first (author_raw c))" d]
      by (auto simp: resolve_author_def split: if_splits option.splits prod.splits sum.splits)
    then obtain ws1 where ws1: "d' = fold apply_write ws1 d"
    proof
      assume "d' = d"
      then have "d' = fold apply_write [] d" by simp
      then show ?thesis using that by blast
    next
      assume "\<exists>n. d' = apply_write (AuthorInsert (org_id org) email n) d"
      then obtain n where "d' = fold apply_write [AuthorInsert (org_id org) email n] d" by auto
      then show ?thesis using that by blast
    qed
    show ?thesis
    proof (cases ra)
      case (Inl e)
      then have "snd (snd (process_commit ign pd org rid c (memo, d))) = d'"
        using False Inr ra by (simp add: process_commit_def)
      then show ?thesis using ws1 by blast
    next
      case (Inr a)
      then have pc: "snd (snd (process_commit ign pd org rid c (memo, d)))
                       = snd (create_commit pd org rid c a d')"
        using False \<open>parse_raw_user (author_raw c) = Inr email\<close> ra
        by (simp add: process_commit_def split: prod.splits)
      from create_commit_is_write [of pd org rid c a d'] show ?thesis
      proof
        assume "snd (create_commit pd org rid c a d') = d'"
        then show ?thesis using pc ws1 by metis
      next
        assume "\<exists>row. snd (create_commit pd org rid c a d') = apply_write (CommitCreate row) d'"
        then obtain row where
          "snd (create_commit pd org rid c a d') = fold apply_write (ws1 @ [CommitCreate row]) d"
          using ws1 by auto
        then show ?thesis using pc by metis
      qed
    qed
  qed
qed

lemma process_commits_writes:
  "\<exists>ws. snd (snd (process_commits ign pd org rid cs (memo, d))) = fold apply_write ws d"
proof (induction cs arbitrary: memo d)
  case Nil
  have "snd (snd (process_commits ign pd org rid [] (memo, d))) = fold apply_write [] d" by simp
  then show ?case by blast
next
  case (Cons c cs)
  obtain r memo' d' where s: "process_commit ign pd org rid c (memo, d) = (r, memo', d')"
    by (cases "process_commit ign pd org rid c (memo, d)") auto
  obtain ws1 where ws1: "d' = fold apply_write ws1 d"
    using process_commit_writes [of ign pd org rid c memo d] s by auto
  show ?case
  proof (cases r)
    case (Some e)
    then have "snd (snd (process_commits ign pd org rid (c # cs) (memo, d))) = d'"
      using s by simp
    then show ?thesis using ws1 by blast
  next
    case None
    obtain ws2 where
      "snd (snd (process_commits ign pd org rid cs (memo', d'))) = fold apply_write ws2 d'"
      using Cons.IH by blast
    then have "snd (snd (process_commits ign pd org rid (c # cs) (memo, d)))
                 = fold apply_write (ws1 @ ws2) d"
      using s None ws1 by simp
    then show ?thesis by blast
  qed
qed

lemma process_changes_writes:
  "\<exists>ws. snd (snd (process_changes ign pd org rid chs (memo, d))) = fold apply_write ws d"
proof (induction chs arbitrary: memo d)
  case Nil
  have "snd (snd (process_changes ign pd org rid [] (memo, d))) = fold apply_write [] d" by simp
  then show ?case by blast
next
  case (Cons ch chs)
  obtain r memo' d' where
    s: "process_commits ign pd org rid (get_commits ch) (memo, d) = (r, memo', d')"
    by (cases "process_commits ign pd org rid (get_commits ch) (memo, d)") auto
  obtain ws1 where ws1: "d' = fold apply_write ws1 d"
    using process_commits_writes [of ign pd org rid "get_commits ch" memo d] s by auto
  show ?case
  proof (cases r)
    case (Some e)
    then have "snd (snd (process_changes ign pd org rid (ch # chs) (memo, d))) = d'"
      using s by simp
    then show ?thesis using ws1 by blast
  next
    case None
    obtain ws2 where
      "snd (snd (process_changes ign pd org rid chs (memo', d'))) = fold apply_write ws2 d'"
      using Cons.IH by blast
    then have "snd (snd (process_changes ign pd org rid (ch # chs) (memo, d)))
                 = fold apply_write (ws1 @ ws2) d"
      using s None ws1 by simp
    then show ?thesis by blast
  qed
qed

lemma sync_name_is_write:
  "sync_name repo ev d = d \<or> (\<exists>r. sync_name repo ev d = apply_write (RepositorySave r) d)"
  by (auto simp: sync_name_def)

lemma handler_writes:
  "\<exists>ws. snd (PushEventWebhook_call ign pd org ev d) = fold apply_write ws d"
proof (cases "repository_get (org_id org) ''bitbucket'' (repository_uuid ev) d")
  case (Inl e)
  then have "snd (PushEventWebhook_call ign pd org ev d) = fold apply_write [] d"
    by (simp add: PushEventWebhook_call_def split: exn.splits)
  then show ?thesis by blast
next
  case (Inr repo)
  obtain ws0 where ws0: "sync_name repo ev d = fold apply_write ws0 d"
  proof -
    from sync_name_is_write [of repo ev d] show ?thesis
    proof
      assume "sync_name repo ev d = d"
      then have "sync_name repo ev d = fold apply_write [] d" by simp
      then show ?thesis using that by blast
    next
      assume "\<exists>r. sync_name repo ev d = apply_write (RepositorySave r) d"
      then obtain r where "sync_name repo ev d = fold apply_write [RepositorySave r] d" by auto
      then show ?thesis using that by blast
    qed
  qed
  obtain ws1 where
    "snd (snd (process_changes ign pd org (repo_id repo) (push_changes ev)
                 (Map.empty, sync_name repo ev d))) = fold apply_write ws1 (sync_name repo ev d)"
    using process_changes_writes by blast
  then have "snd (PushEventWebhook_call ign pd org ev d) = fold apply_write (ws0 @ ws1) d"
    using Inr ws0 by (auto simp: PushEventWebhook_call_def split: prod.splits)
  then show ?thesis by blast
qed

lemma deliver_all_writes:
  "\<exists>ws. deliver_all ign pd ds d = fold apply_write ws d"
proof (induction ds arbitrary: d)
  case Nil
  have "deliver_all ign pd [] d = fold apply_write [] d" by simp
  then show ?case by blast
next
  case (Cons x ds)
  obtain org ev where x: "x = (org, ev)" by (cases x) auto
  obtain ws1 where ws1: "snd (PushEventWebhook_call ign pd org ev d) = fold apply_write ws1 d"
    using handler_writes by blast
  obtain ws2 where
    "deliver_all ign pd ds (snd (PushEventWebhook_call ign pd org ev d))
       = fold apply_write ws2 (snd (PushEventWebhook_call ign pd org ev d))"
    using Cons.IH by blast
  then have "deliver_all ign pd (x # ds) d = fold apply_write (ws1 @ ws2) d"
    using x ws1 by simp
  then show ?case by blast
qed

section \<open>One author row for an organization and an email\<close>

lemma apply_write_unique:
  assumes "authors_unique d"
  shows "authors_unique (apply_write w d)"
proof (cases w)
  case (AuthorInsert organization_id email name)
  show ?thesis
  proof (cases "author_matches organization_id email d = []")
    case True
    then have "(organization_id, email)
                 \<notin> set (map (\<lambda>a. (author_organization_id a, author_email a)) (authors d))"
      by (auto simp: author_matches_def filter_empty_conv)
    then show ?thesis
      using assms AuthorInsert True
      by (simp add: author_insert_fresh) (simp add: authors_unique_def)
  next
    case False
    then show ?thesis using assms AuthorInsert by (simp add: author_insert_def)
  qed
next
  case (CommitCreate row)
  then show ?thesis using assms by (simp add: commit_create_def authors_unique_def)
next
  case (RepositorySave r)
  then show ?thesis using assms by (simp add: repository_save_def authors_unique_def)
qed

lemma writes_unique:
  "authors_unique d \<Longrightarrow> authors_unique (fold apply_write ws d)"
  by (induction ws arbitrary: d) (simp_all add: apply_write_unique)

lemma unique_at_most_one:
  "distinct (map f xs) \<Longrightarrow> length (filter (\<lambda>a. f a = k) xs) \<le> Suc 0"
proof (induction xs)
  case Nil
  show ?case by simp
next
  case (Cons a xs)
  show ?case
  proof (cases "f a = k")
    case True
    then have "k \<notin> f ` set xs" using Cons.prems by simp
    then have "filter (\<lambda>a. f a = k) xs = []" by (auto simp: filter_empty_conv)
    then show ?thesis using True by simp
  next
    case False
    then show ?thesis using Cons by simp
  qed
qed

lemma authors_unique_at_most_one:
  assumes "authors_unique d"
  shows "length (author_matches organization_id email d) \<le> 1"
proof -
  have "author_matches organization_id email d
          = filter (\<lambda>a. (author_organization_id a, author_email a) = (organization_id, email))
              (authors d)"
    by (simp add: author_matches_def)
  then show ?thesis
    using assms unique_at_most_one [of "\<lambda>a. (author_organization_id a, author_email a)"
        "authors d" "(organization_id, email)"]
    by (simp add: authors_unique_def)
qed

text \<open>
  Claim C8.  From a storage with at most one author row for each organization and email,
  any list of deliveries to the push handler, each to its end or to the exception that
  stops it, leaves at most one author row for every organization \<open>O\<close> and email \<open>E\<close>.
  The same holds after any sequence of the writes the handler issues, in whatever order
  the requests served at the same time send them: an insert for a pair that already has
  a row is refused by the unique index of the datastore.
\<close>

theorem at_most_one_author_per_organization_and_email:
  assumes "authors_unique d"
  shows "length (author_matches organization_id email (deliver_all ign pd deliveries d)) \<le> 1
       \<and> length (author_matches organization_id email (fold apply_write writes d)) \<le> 1"
proof -
  obtain ws where "deliver_all ign pd deliveries d = fold apply_write ws d"
    using deliver_all_writes by blast
  then have "authors_unique (deliver_all ign pd deliveries d)"
    using assms by (simp add: writes_unique)
  moreover have "authors_unique (fold apply_write writes d)"
    using assms by (rule writes_unique)
  ultimately show ?thesis using authors_unique_at_most_one by blast
qed


theorem at_most_one_author_per_organization_and_email_witness:
  "authors_unique example_db
   \<and> length (author_matches 1 ''jane@x.com''
         (deliver_all example_ignore example_parse_date
            [(example_org, example_event), (example_org, example_event)] example_db)) \<le> 1
   \<and> length (author_matches 1 ''jane@x.com''
         (fold apply_write [AuthorInsert 1 ''jane@x.com'' ''Jane'',
                            AuthorInsert 1 ''jane@x.com'' ''J. Doe''] example_db)) \<le> 1
   \<and> author_matches 1 ''jane@x.com''
         (fold apply_write [AuthorInsert 1 ''jane@x.com'' ''Jane'',
                            AuthorInsert 1 ''jane@x.com'' ''J. Doe''] example_db) = [jane]"
proof -
  have u: "authors_unique example_db" by (simp add: authors_unique_def example_db_def)
  have "author_matches 1 ''jane@x.com''
         (fold apply_write [AuthorInsert 1 ''jane@x.com'' ''Jane'',
                            AuthorInsert 1 ''jane@x.com'' ''J. Doe''] example_db) = [jane]"
    by (simp add: scenario_defs handler_defs)
  then show ?thesis
    using u at_most_one_author_per_organization_and_email [OF u, of 1 "''jane@x.com''"
        example_ignore example_parse_date
        "[(example_org, example_event), (example_org, example_event)]"
        "[AuthorInsert 1 ''jane@x.com'' ''Jane'', AuthorInsert 1 ''jane@x.com'' ''J. Doe'']"]
    by blast
qed

section \<open>Redelivery\<close>

lemma covered_by_refl: "covered_by d d"
  by (simp add: covered_by_def)

lemma covered_by_trans: "covered_by d1 d2 \<Longrightarrow> covered_by d2 d3 \<Longrightarrow> covered_by d1 d3"
  by (simp add: covered_by_def)

lemma apply_write_covered: "covered_by d (apply_write w d)"
proof (cases w)
  case (AuthorInsert organization_id email name)
  show ?thesis
  proof (cases "author_matches organization_id email d = []")
    case True
    have "\<And>o' e'. length (author_matches o' e' d) = 1 \<Longrightarrow>
            author_matches o' e' (apply_write w d) = author_matches o' e' d"
      using True AuthorInsert
      by (auto simp: author_insert_fresh) (auto simp: author_matches_def)
    moreover have "\<And>rid k. commit_exists rid k (apply_write w d) = commit_exists rid k d"
      using True AuthorInsert by (simp add: author_insert_fresh commit_exists_def)
    ultimately show ?thesis by (simp add: covered_by_def)
  next
    case False
    then show ?thesis using AuthorInsert by (simp add: author_insert_def covered_by_refl)
  qed
next
  case (CommitCreate row)
  then show ?thesis
    by (auto simp: commit_create_def covered_by_def commit_exists_def author_matches_def)
next
  case (RepositorySave r)
  then show ?thesis
    by (simp add: repository_save_def covered_by_def commit_exists_def author_matches_def)
qed

lemma writes_covered: "covered_by d (fold apply_write ws d)"
proof (induction ws arbitrary: d)
  case Nil
  show ?case by (simp add: covered_by_refl)
next
  case (Cons w ws)
  have "covered_by d (apply_write w d)" by (rule apply_write_covered)
  moreover have "covered_by (apply_write w d) (fold apply_write ws (apply_write w d))"
    by (rule Cons.IH)
  ultimately show ?case using covered_by_trans by simp
qed

lemma process_commits_covered:
  assumes "process_commits ign pd org rid cs (memo, d) = (r, memo1, d1)"
  shows "covered_by d d1"
  using process_commits_writes [of ign pd org rid cs memo d] assms writes_covered by auto

lemma create_commit_authors:
  "authors (snd (create_commit pd org rid c a d)) = authors d"
  by (simp add: create_commit_cases split: option.splits)

lemma create_commit_replay:
  assumes "create_commit pd org rid c a dA = (r, d1)"
      and "covered_by d1 d2"
      and "r \<noteq> None \<Longrightarrow> d2 = d1"
  shows "create_commit pd org rid c a' d2 = (r, d2)"
proof (cases "pd (date c)")
  case None
  then have "r = Some ValueError" "d1 = dA" using assms(1) by (simp_all add: create_commit_cases)
  then show ?thesis using None assms(3) by (simp add: create_commit_cases)
next
  case (Some t)
  then have r: "r = None" using assms(1) by (simp add: create_commit_cases)
  have "commit_exists rid (hash c) d1"
    using assms(1) Some by (auto simp: create_commit_cases commit_exists_def split: if_splits)
  then have "commit_exists rid (hash c) d2" using assms(2) by (simp add: covered_by_def)
  then show ?thesis using Some r by (simp add: create_commit_cases)
qed

lemma length_one: "length xs = 1 \<Longrightarrow> \<exists>x. xs = [x]"
  by (cases xs) auto

lemma resolve_author_replay:
  assumes run: "resolve_author org c email (memo, d) = (ra, memoA, dA)"
      and dom: "dom memo' = dom memo"
      and cov: "\<And>oid em. length (author_matches oid em dA) = 1 \<Longrightarrow> length (author_matches oid em d2) = 1"
      and err: "isl ra \<Longrightarrow> d2 = dA"
  shows "\<exists>ra' memo''. resolve_author org c email (memo', d2) = (ra', memo'', d2)
           \<and> dom memo'' = dom memoA
           \<and> (case ra of Inl e \<Rightarrow> ra' = Inl e | Inr _ \<Rightarrow> \<not> isl ra')"
proof (cases "length email > 75")
  case True
  then show ?thesis using run dom by (auto simp: resolve_author_def)
next
  case long: False
  show ?thesis
  proof (cases "memo email")
    case (Some a)
    then have "email \<in> dom memo'" using dom by auto
    then obtain a' where "memo' email = Some a'" by auto
    then show ?thesis using run dom long Some by (auto simp: resolve_author_def)
  next
    case None
    then have none': "memo' email = None" using dom by auto
    let ?n = "strip (split_lt_first (author_raw c))"
    show ?thesis
    proof (cases "author_matches (org_id org) email d")
      case Nil
      then have res: "ra = Inr (Some \<lparr>author_id = next_author_id d,
                        author_organization_id = org_id org,
                        author_email = email, author_name = ?n\<rparr>)"
        and mA: "dom memoA = insert email (dom memo)"
        and dA: "author_matches (org_id org) email dA
                  = [\<lparr>author_id = next_author_id d, author_organization_id = org_id org,
                      author_email = email, author_name = ?n\<rparr>]"
        using run long None
        by (auto simp: resolve_author_def get_or_create_cases author_insert_fresh
              author_matches_def)
      have "length (author_matches (org_id org) email d2) = 1" using cov dA by simp
      then obtain a2 where "author_matches (org_id org) email d2 = [a2]"
        using length_one by blast
      then have "resolve_author org c email (memo', d2)
                   = (Inr (Some a2), memo'(email \<mapsto> a2), d2)"
        using long none' by (simp add: resolve_author_def get_or_create_cases)
      then show ?thesis using res mA dom by auto
    next
      case (Cons a rest)
      show ?thesis
      proof (cases rest)
        case Nil
        then have res: "ra = Inr (Some a)" and mA: "dom memoA = insert email (dom memo)"
          and dA: "dA = d"
          using run long None Cons by (auto simp: resolve_author_def get_or_create_cases)
        have "length (author_matches (org_id org) email d2) = 1"
          using cov dA Cons Nil by simp
        then obtain a2 where "author_matches (org_id org) email d2 = [a2]"
          using length_one by blast
        then have "resolve_author org c email (memo', d2)
                     = (Inr (Some a2), memo'(email \<mapsto> a2), d2)"
          using long none' by (simp add: resolve_author_def get_or_create_cases)
        then show ?thesis using res mA dom by auto
      next
        case (Cons b rest')
        then have res: "ra = Inl MultipleObjectsReturned" and mA: "memoA = memo" and dA: "dA = d"
          using run long None \<open>author_matches (org_id org) email d = a # rest\<close>
          by (auto simp: resolve_author_def get_or_create_cases)
        then have "d2 = d" using err by simp
        then have "resolve_author org c email (memo', d2)
                     = (Inl MultipleObjectsReturned, memo', d2)"
          using long none' Cons \<open>author_matches (org_id org) email d = a # rest\<close>
          by (simp add: resolve_author_def get_or_create_cases)
        then show ?thesis using res mA dom by auto
      qed
    qed
  qed
qed

lemma process_commit_replay:
  assumes run: "process_commit ign pd org rid c (memo, d) = (r, memo1, d1)"
      and dom: "dom memo' = dom memo"
      and cov: "covered_by d1 d2"
      and err: "r \<noteq> None \<Longrightarrow> d2 = d1"
  shows "\<exists>memo''. process_commit ign pd org rid c (memo', d2) = (r, memo'', d2)
           \<and> dom memo'' = dom memo1"
proof (cases "ign (message c)")
  case True
  then show ?thesis using run dom by (auto simp: process_commit_def)
next
  case ign: False
  show ?thesis
  proof (cases "parse_raw_user (author_raw c)")
    case (Inl e)
    then show ?thesis using run dom ign by (auto simp: process_commit_def)
  next
    case (Inr email)
    obtain ra memoA dA where ra: "resolve_author org c email (memo, d) = (ra, memoA, dA)"
      by (cases "resolve_author org c email (memo, d)") auto
    show ?thesis
    proof (cases ra)
      case (Inl e)
      then have r: "r = Some e" "memo1 = memoA" "d1 = dA"
        using run ign Inr ra by (auto simp: process_commit_def)
      then have d2: "d2 = dA" using err by simp
      obtain ra' memo'' where
        "resolve_author org c email (memo', d2) = (ra', memo'', d2)"
        "dom memo'' = dom memoA" "ra' = Inl e"
        using resolve_author_replay [OF ra dom, of d2] d2 Inl by auto
      then show ?thesis
        using ign Inr r by (auto simp: process_commit_def)
    next
      case (Inr a)
      then have cc: "create_commit pd org rid c a dA = (r, d1)" and m1: "memo1 = memoA"
        using run ign \<open>parse_raw_user (author_raw c) = Inr email\<close> ra
        by (auto simp: process_commit_def split: prod.splits)
      have "authors d1 = authors dA"
        using cc create_commit_authors [of pd org rid c a dA] by simp
      then have "\<And>oid em. author_matches oid em d1 = author_matches oid em dA"
        by (simp add: author_matches_def)
      then have cov': "\<And>oid em. length (author_matches oid em dA) = 1
                        \<Longrightarrow> length (author_matches oid em d2) = 1"
        using cov by (simp add: covered_by_def)
      obtain ra' memo'' where
        rr: "resolve_author org c email (memo', d2) = (ra', memo'', d2)"
        and dm: "dom memo'' = dom memoA" and "\<not> isl ra'"
        using resolve_author_replay [OF ra dom cov'] Inr by auto
      then obtain a' where a': "ra' = Inr a'" by (cases ra') auto
      have "create_commit pd org rid c a' d2 = (r, d2)"
        using create_commit_replay [OF cc cov] err by simp
      then show ?thesis
        using ign \<open>parse_raw_user (author_raw c) = Inr email\<close> rr a' dm m1
        by (auto simp: process_commit_def)
    qed
  qed
qed

lemma process_commits_replay:
  assumes "process_commits ign pd org rid cs (memo, d) = (r, memo1, d1)"
      and "dom memo' = dom memo"
      and "covered_by d1 d2"
      and "r \<noteq> None \<Longrightarrow> d2 = d1"
  shows "\<exists>memo''. process_commits ign pd org rid cs (memo', d2) = (r, memo'', d2)
           \<and> dom memo'' = dom memo1"
  using assms
proof (induction cs arbitrary: memo d memo')
  case Nil
  then show ?case by auto
next
  case (Cons c cs)
  obtain rc memoA dA where s: "process_commit ign pd org rid c (memo, d) = (rc, memoA, dA)"
    by (cases "process_commit ign pd org rid c (memo, d)") auto
  show ?case
  proof (cases rc)
    case (Some e)
    then have eq: "r = Some e" "memo1 = memoA" "d1 = dA"
      using Cons.prems(1) s by auto
    then have "d2 = dA" using Cons.prems(4) by simp
    then obtain memo'' where
      "process_commit ign pd org rid c (memo', d2) = (rc, memo'', d2)" "dom memo'' = dom memoA"
      using process_commit_replay [OF s Cons.prems(2), of d2] covered_by_refl by auto
    then show ?thesis using Some eq by auto
  next
    case None
    then have rest: "process_commits ign pd org rid cs (memoA, dA) = (r, memo1, d1)"
      using Cons.prems(1) s by simp
    have "covered_by dA d1" using rest by (rule process_commits_covered)
    then have "covered_by dA d2" using Cons.prems(3) covered_by_trans by blast
    then obtain memoB where
      b: "process_commit ign pd org rid c (memo', d2) = (rc, memoB, d2)" "dom memoB = dom memoA"
      using process_commit_replay [OF s Cons.prems(2), of d2] None by auto
    obtain memo'' where
      "process_commits ign pd org rid cs (memoB, d2) = (r, memo'', d2)" "dom memo'' = dom memo1"
      using Cons.IH [OF rest b(2) Cons.prems(3) Cons.prems(4)] by auto
    then show ?thesis using b None by auto
  qed
qed

lemma process_changes_covered:
  assumes "process_changes ign pd org rid chs (memo, d) = (r, memo1, d1)"
  shows "covered_by d d1"
  using process_changes_writes [of ign pd org rid chs memo d] assms writes_covered by auto

lemma process_changes_replay:
  assumes "process_changes ign pd org rid chs (memo, d) = (r, memo1, d1)"
      and "dom memo' = dom memo"
      and "covered_by d1 d2"
      and "r \<noteq> None \<Longrightarrow> d2 = d1"
  shows "\<exists>memo''. process_changes ign pd org rid chs (memo', d2) = (r, memo'', d2)
           \<and> dom memo'' = dom memo1"
  using assms
proof (induction chs arbitrary: memo d memo')
  case Nil
  then show ?case by auto
next
  case (Cons ch chs)
  obtain rc memoA dA where
    s: "process_commits ign pd org rid (get_commits ch) (memo, d) = (rc, memoA, dA)"
    by (cases "process_commits ign pd org rid (get_commits ch) (memo, d)") auto
  show ?case
  proof (cases rc)
    case (Some e)
    then have eq: "r = Some e" "memo1 = memoA" "d1 = dA"
      using Cons.prems(1) s by auto
    then have "d2 = dA" using Cons.prems(4) by simp
    then obtain memo'' where
      "process_commits ign pd org rid (get_commits ch) (memo', d2) = (rc, memo'', d2)"
      "dom memo'' = dom memoA"
      using process_commits_replay [OF s Cons.prems(2), of d2] covered_by_refl by auto
    then show ?thesis using Some eq by auto
  next
    case None
    then have rest: "process_changes ign pd org rid chs (memoA, dA) = (r, memo1, d1)"
      using Cons.prems(1) s by simp
    have "covered_by dA d1" using rest by (rule process_changes_covered)
    then have "covered_by dA d2" using Cons.prems(3) covered_by_trans by blast
    then obtain memoB where
      b: "process_commits ign pd org rid (get_commits ch) (memo', d2) = (rc, memoB, d2)"
         "dom memoB = dom memoA"
      using process_commits_replay [OF s Cons.prems(2), of d2] None by auto
    obtain memo'' where
      "process_changes ign pd org rid chs (memoB, d2) = (r, memo'', d2)" "dom memo'' = dom memo1"
      using Cons.IH [OF rest b(2) Cons.prems(3) Cons.prems(4)] by auto
    then show ?thesis using b None by auto
  qed
qed

lemma resolve_author_frame:
  assumes "resolve_author org c email (memo, d) = (ra, memoA, dA)"
  shows "repositories dA = repositories d" and "ra \<noteq> Inl IntegrityError"
  using assms
  by (auto simp: resolve_author_def get_or_create_cases author_insert_fresh
        split: if_splits option.splits list.splits)

lemma process_commit_frame:
  assumes "process_commit ign pd org rid c (memo, d) = (r, memo1, d1)"
  shows "repositories d1 = repositories d \<and> r \<noteq> Some IntegrityError"
proof (cases "ign (message c)")
  case True
  then show ?thesis using assms by (auto simp: process_commit_def)
next
  case ign: False
  show ?thesis
  proof (cases "parse_raw_user (author_raw c)")
    case (Inl e)
    then have "e = AttributeError" by (auto simp: parse_raw_user_def split: option.splits)
    then show ?thesis using assms ign Inl by (auto simp: process_commit_def)
  next
    case (Inr email)
    obtain ra memoA dA where ra: "resolve_author org c email (memo, d) = (ra, memoA, dA)"
      by (cases "resolve_author org c email (memo, d)") auto
    note fr = resolve_author_frame [OF ra]
    show ?thesis
    proof (cases ra)
      case (Inl e)
      then show ?thesis using assms ign Inr ra fr by (auto simp: process_commit_def)
    next
      case (Inr a)
      then have "create_commit pd org rid c a dA = (r, d1)"
        using assms ign \<open>parse_raw_user (author_raw c) = Inr email\<close> ra
        by (auto simp: process_commit_def split: prod.splits)
      then show ?thesis using fr(1)
        by (auto simp: create_commit_cases split: option.splits if_splits)
    qed
  qed
qed

lemma process_commits_frame:
  assumes "process_commits ign pd org rid cs (memo, d) = (r, memo1, d1)"
  shows "repositories d1 = repositories d \<and> r \<noteq> Some IntegrityError"
  using assms
proof (induction cs arbitrary: memo d)
  case Nil
  then show ?case by auto
next
  case (Cons c cs)
  obtain rc memoA dA where s: "process_commit ign pd org rid c (memo, d) = (rc, memoA, dA)"
    by (cases "process_commit ign pd org rid c (memo, d)") auto
  note fr = process_commit_frame [OF s]
  show ?case
  proof (cases rc)
    case (Some e)
    then show ?thesis using Cons.prems s fr by auto
  next
    case None
    then have "process_commits ign pd org rid cs (memoA, dA) = (r, memo1, d1)"
      using Cons.prems s by simp
    then show ?thesis using Cons.IH fr by auto
  qed
qed

lemma process_changes_frame:
  assumes "process_changes ign pd org rid chs (memo, d) = (r, memo1, d1)"
  shows "repositories d1 = repositories d \<and> r \<noteq> Some IntegrityError"
  using assms
proof (induction chs arbitrary: memo d)
  case Nil
  then show ?case by auto
next
  case (Cons ch chs)
  obtain rc memoA dA where
    s: "process_commits ign pd org rid (get_commits ch) (memo, d) = (rc, memoA, dA)"
    by (cases "process_commits ign pd org rid (get_commits ch) (memo, d)") auto
  note fr = process_commits_frame [OF s]
  show ?case
  proof (cases rc)
    case (Some e)
    then show ?thesis using Cons.prems s fr by auto
  next
    case None
    then have "process_changes ign pd org rid chs (memoA, dA) = (r, memo1, d1)"
      using Cons.prems s by simp
    then show ?thesis using Cons.IH fr by auto
  qed
qed

lemma filter_map_commute:
  "(\<And>x. x \<in> set xs \<Longrightarrow> P (f x) = P x) \<Longrightarrow> filter P (map f xs) = map f (filter P xs)"
  by (induction xs) auto

lemma repository_get_found:
  assumes "repository_get oid p x d = Inr repo"
  shows "filter (\<lambda>r. repo_organization_id r = oid \<and> repo_provider r = p
                      \<and> repo_external_id r = x) (repositories d) = [repo]"
  using assms by (auto simp: repository_get_def split: list.splits)

lemma repository_get_after_save:
  assumes pk: "distinct (map repo_id (repositories d))"
      and get: "repository_get oid p x d = Inr repo"
  shows "repository_get oid p x (repository_save (repo\<lparr>repo_config_name := n\<rparr>) d)
           = Inr (repo\<lparr>repo_config_name := n\<rparr>)"
proof -
  let ?P = "\<lambda>r. repo_organization_id r = oid \<and> repo_provider r = p \<and> repo_external_id r = x"
  let ?f = "\<lambda>y. if repo_id y = repo_id (repo\<lparr>repo_config_name := n\<rparr>)
                then repo\<lparr>repo_config_name := n\<rparr> else y"
  have f: "filter ?P (repositories d) = [repo]" using get by (rule repository_get_found)
  then have "repo \<in> set (filter ?P (repositories d))" by simp
  then have mem: "repo \<in> set (repositories d)" and P: "?P repo" by auto
  have inj: "inj_on repo_id (set (repositories d))" using pk by (simp add: distinct_map)
  have same: "\<And>y. y \<in> set (repositories d) \<Longrightarrow> repo_id y = repo_id repo \<Longrightarrow> y = repo"
    using inj mem by (auto dest: inj_onD)
  have "\<And>y. y \<in> set (repositories d) \<Longrightarrow> ?P (?f y) = ?P y"
    using same P by auto
  then have "filter ?P (map ?f (repositories d)) = map ?f (filter ?P (repositories d))"
    by (rule filter_map_commute)
  then have "filter ?P (map ?f (repositories d)) = [repo\<lparr>repo_config_name := n\<rparr>]"
    using f by simp
  then show ?thesis by (simp add: repository_get_def repository_save_def)
qed

lemma repository_get_after_sync:
  assumes "distinct (map repo_id (repositories d))"
      and "repository_get oid p x d = Inr repo"
  shows "repository_get oid p x (sync_name repo ev d)
           = Inr (repo\<lparr>repo_config_name := Some (repository_full_name ev)\<rparr>)"
proof (cases "repo_config_name repo = Some (repository_full_name ev)")
  case True
  then have "repo\<lparr>repo_config_name := Some (repository_full_name ev)\<rparr> = repo" by simp
  then show ?thesis using assms(2) True by (simp add: sync_name_def)
next
  case False
  then show ?thesis
    using repository_get_after_save [OF assms] by (simp add: sync_name_def)
qed

lemma repository_get_cong:
  "repositories d' = repositories d \<Longrightarrow> repository_get oid p x d' = repository_get oid p x d"
  by (simp add: repository_get_def)

text \<open>
  Claim C1.  Whatever a delivery of a push event leaves in the storage, the delivery of
  the same event once more leaves exactly that: no commit row is added, none is
  duplicated, and the second delivery ends as the first did; the refused inserts are
  absorbed, and IntegrityError never leaves the handler.  Repository ids are taken to
  be a primary key.
\<close>

theorem redelivery_is_absorbed:
  assumes pk: "distinct (map repo_id (repositories d))"
      and run: "PushEventWebhook_call ign pd org ev d = (r, d1)"
  shows "PushEventWebhook_call ign pd org ev d1 = (r, d1) \<and> r \<noteq> Some IntegrityError"
proof (cases "repository_get (org_id org) ''bitbucket'' (repository_uuid ev) d")
  case (Inl e)
  then have "d1 = d" and "r \<noteq> Some IntegrityError"
    using run by (auto simp: PushEventWebhook_call_def repository_get_def
                    split: exn.splits list.splits)
  then show ?thesis using run by simp
next
  case (Inr repo)
  let ?repo' = "repo\<lparr>repo_config_name := Some (repository_full_name ev)\<rparr>"
  obtain memo1 where
    ch: "process_changes ign pd org (repo_id repo) (push_changes ev)
           (Map.empty, sync_name repo ev d) = (r, memo1, d1)"
    using run Inr by (auto simp: PushEventWebhook_call_def split: prod.splits)
  have fr: "repositories d1 = repositories (sync_name repo ev d)" "r \<noteq> Some IntegrityError"
    using process_changes_frame [OF ch] by auto
  have "repository_get (org_id org) ''bitbucket'' (repository_uuid ev) (sync_name repo ev d)
          = Inr ?repo'"
    using pk Inr by (rule repository_get_after_sync)
  then have get1: "repository_get (org_id org) ''bitbucket'' (repository_uuid ev) d1 = Inr ?repo'"
    using repository_get_cong [OF fr(1)] by simp
  have sync1: "sync_name ?repo' ev d1 = d1" by (simp add: sync_name_def)
  obtain memo'' where
    "process_changes ign pd org (repo_id repo) (push_changes ev) (Map.empty, d1)
       = (r, memo'', d1)"
    using process_changes_replay [OF ch refl covered_by_refl] by auto
  then have "PushEventWebhook_call ign pd org ev d1 = (r, d1)"
    using get1 sync1 by (simp add: PushEventWebhook_call_def)
  then show ?thesis using fr(2) by simp
qed

theorem redelivery_is_absorbed_witness:
  "distinct (map repo_id (repositories example_db))
   \<and> PushEventWebhook_call example_ignore example_parse_date example_org example_event example_db
       = (None, delivered_db)
   \<and> PushEventWebhook_call example_ignore example_parse_date example_org example_event delivered_db
       = (None, delivered_db)
   \<and> commits delivered_db = [row_by ''deadbeef'' ''fix bug'' (Some 1)]"
proof -
  have pk: "distinct (map repo_id (repositories example_db))" by (simp add: example_db_def)
  have c: "commits delivered_db = [row_by ''deadbeef'' ''fix bug'' (Some 1)]"
    by (simp add: delivered_db_def)
  show ?thesis
    using pk c scenario_first_delivery redelivery_is_absorbed [OF pk scenario_first_delivery]
    by blast
qed

section \<open>Failures that stay with their commit\<close>

lemma process_commit_unique:
  assumes "authors_unique d" and "process_commit ign pd org rid c (memo, d) = (r, memo1, d1)"
  shows "authors_unique d1" and "covered_by d d1"
  using process_commit_writes [of ign pd org rid c memo d] assms writes_unique writes_covered
  by auto

lemma process_commit_completes:
  assumes u: "authors_unique d"
      and ok: "\<not> ign (message c) \<Longrightarrow> parsable pd c"
  shows "\<exists>memo1 d1. process_commit ign pd org rid c (memo, d) = (None, memo1, d1)
           \<and> (\<not> ign (message c) \<longrightarrow> commit_exists rid (hash c) d1)"
proof (cases "ign (message c)")
  case True
  then show ?thesis by (simp add: process_commit_def)
next
  case ign: False
  then obtain email t where p: "parse_raw_user (author_raw c) = Inr email"
    and t: "pd (date c) = Some t"
    using ok by (cases "parse_raw_user (author_raw c)") (auto simp: parsable_def)
  have "length (author_matches (org_id org) email d) \<le> 1"
    using u by (rule authors_unique_at_most_one)
  then have m: "author_matches (org_id org) email d = []
              \<or> (\<exists>a. author_matches (org_id org) email d = [a])"
    by (cases "author_matches (org_id org) email d") auto
  obtain ra memoA dA where ra: "resolve_author org c email (memo, d) = (ra, memoA, dA)"
    by (cases "resolve_author org c email (memo, d)") auto
  have "\<not> isl ra"
    using ra m
    by (auto simp: resolve_author_def get_or_create_cases author_insert_fresh
          split: if_splits option.splits)
  then obtain a where a: "ra = Inr a" by (cases ra) auto
  have "fst (create_commit pd org rid c a dA) = None"
       "commit_exists rid (hash c) (snd (create_commit pd org rid c a dA))"
    using t by (auto simp: create_commit_cases commit_exists_def)
  then show ?thesis
    using ign p ra a by (auto simp: process_commit_def split: prod.splits)
qed

lemma process_commits_complete:
  assumes "authors_unique d"
      and "\<forall>c \<in> set cs. \<not> ign (message c) \<longrightarrow> parsable pd c"
  shows "\<exists>memo1 d1. process_commits ign pd org rid cs (memo, d) = (None, memo1, d1)
           \<and> authors_unique d1 \<and> covered_by d d1
           \<and> (\<forall>c \<in> set cs. \<not> ign (message c) \<longrightarrow> commit_exists rid (hash c) d1)"
  using assms
proof (induction cs arbitrary: memo d)
  case Nil
  then show ?case by (simp add: covered_by_refl)
next
  case (Cons c cs)
  obtain memoA dA where
    s: "process_commit ign pd org rid c (memo, d) = (None, memoA, dA)"
    and here: "\<not> ign (message c) \<longrightarrow> commit_exists rid (hash c) dA"
    using process_commit_completes [of d ign c pd org rid memo] Cons.prems by auto
  have uA: "authors_unique dA" and cA: "covered_by d dA"
    using process_commit_unique [OF Cons.prems(1) s] by auto
  obtain memo1 d1 where
    rest: "process_commits ign pd org rid cs (memoA, dA) = (None, memo1, d1)"
    and u1: "authors_unique d1" and c1: "covered_by dA d1"
    and all: "\<forall>c \<in> set cs. \<not> ign (message c) \<longrightarrow> commit_exists rid (hash c) d1"
    using Cons.IH [OF uA, of memoA] Cons.prems(2) by auto
  have "\<not> ign (message c) \<longrightarrow> commit_exists rid (hash c) d1"
    using here c1 by (simp add: covered_by_def)
  moreover have "covered_by d d1" using cA c1 by (rule covered_by_trans)
  moreover have "process_commits ign pd org rid (c # cs) (memo, d) = (None, memo1, d1)"
    using s rest by simp
  ultimately show ?case using u1 all by auto
qed

lemma process_changes_complete:
  assumes "authors_unique d"
      and "\<forall>c \<in> set (concat (map get_commits chs)). \<not> ign (message c) \<longrightarrow> parsable pd c"
  shows "\<exists>memo1 d1. process_changes ign pd org rid chs (memo, d) = (None, memo1, d1)
           \<and> authors_unique d1 \<and> covered_by d d1
           \<and> (\<forall>c \<in> set (concat (map get_commits chs)).
                 \<not> ign (message c) \<longrightarrow> commit_exists rid (hash c) d1)"
  using assms
proof (induction chs arbitrary: memo d)
  case Nil
  then show ?case by (simp add: covered_by_refl)
next
  case (Cons ch chs)
  have p1: "\<forall>c \<in> set (get_commits ch). \<not> ign (message c) \<longrightarrow> parsable pd c"
    and p2: "\<forall>c \<in> set (concat (map get_commits chs)). \<not> ign (message c) \<longrightarrow> parsable pd c"
    using Cons.prems(2) by auto
  obtain memoA dA where
    s: "process_commits ign pd org rid (get_commits ch) (memo, d) = (None, memoA, dA)"
    and uA: "authors_unique dA" and cA: "covered_by d dA"
    and here: "\<forall>c \<in> set (get_commits ch). \<not> ign (message c) \<longrightarrow> commit_exists rid (hash c) dA"
    using process_commits_complete [OF Cons.prems(1) p1, of org rid memo] by auto
  obtain memo1 d1 where
    rest: "process_changes ign pd org rid chs (memoA, dA) = (None, memo1, d1)"
    and u1: "authors_unique d1" and c1: "covered_by dA d1"
    and all: "\<forall>c \<in> set (concat (map get_commits chs)).
                \<not> ign (message c) \<longrightarrow> commit_exists rid (hash c) d1"
    using Cons.IH [OF uA p2, of memoA] by auto
  have "\<forall>c \<in> set (get_commits ch). \<not> ign (message c) \<longrightarrow> commit_exists rid (hash c) d1"
    using here c1 by (simp add: covered_by_def)
  moreover have "covered_by d d1" using cA c1 by (rule covered_by_trans)
  moreover have "process_changes ign pd org rid (ch # chs) (memo, d) = (None, memo1, d1)"
    using s rest by simp
  ultimately show ?case using u1 all by auto
qed

text \<open>
  Claim C6, as the code has it.  When the repository is found and every commit of the
  event that is not ignored has a raw author and a date that parse, no commit keeps the
  later ones from being processed: a key that exists already and an email over 75
  characters are absorbed commit by commit, the handler ends without an exception, and
  afterwards every commit that is not ignored has a row for its repository and hash.
  The storage is taken to hold at most one author row for each organization and email.
\<close>

theorem handled_failures_stay_with_their_commit:
  assumes "authors_unique d"
      and "repository_get (org_id org) ''bitbucket'' (repository_uuid ev) d = Inr repo"
      and "\<forall>c \<in> set (event_commits ev). \<not> ign (message c) \<longrightarrow> parsable pd c"
  shows "fst (PushEventWebhook_call ign pd org ev d) = None
       \<and> (\<forall>c \<in> set (event_commits ev). \<not> ign (message c) \<longrightarrow>
            commit_exists (repo_id repo) (hash c) (snd (PushEventWebhook_call ign pd org ev d)))"
proof -
  have "authors_unique (sync_name repo ev d)"
    using assms(1) by (simp add: sync_name_def repository_save_def authors_unique_def)
  then obtain memo1 d1 where
    "process_changes ign pd org (repo_id repo) (push_changes ev)
       (Map.empty, sync_name repo ev d) = (None, memo1, d1)"
    "\<forall>c \<in> set (event_commits ev). \<not> ign (message c) \<longrightarrow> commit_exists (repo_id repo) (hash c) d1"
    using process_changes_complete [of "sync_name repo ev d" "push_changes ev" ign pd org
        "repo_id repo" Map.empty] assms(3)
    unfolding event_commits_def by auto
  then show ?thesis using assms(2) by (simp add: PushEventWebhook_call_def)
qed

lemma parse_long_raw: "parse_raw_user long_raw = Inr long_email"
  using parse_long by (simp add: long_raw_def)

lemma long_email_length: "length long_email = 76"
  by (simp add: long_email_def)

theorem handled_failures_stay_with_their_commit_witness:
  "authors_unique delivered_db
   \<and> repository_get (org_id example_org) ''bitbucket''
        (repository_uuid (push_of [commit_by ''deadbeef'' ''fix bug'' ''Jane <jane@x.com>'',
                                   commit_by ''cafe'' ''more'' long_raw,
                                   commit_by ''f00d'' ''last'' ''Bob <bob@x.com>''])) delivered_db
       = Inr (example_repo\<lparr>repo_config_name := Some ''new/name''\<rparr>)
   \<and> PushEventWebhook_call example_ignore example_parse_date example_org
        (push_of [commit_by ''deadbeef'' ''fix bug'' ''Jane <jane@x.com>'',
                  commit_by ''cafe'' ''more'' long_raw,
                  commit_by ''f00d'' ''last'' ''Bob <bob@x.com>'']) delivered_db
       = (None, delivered_db\<lparr>authors := [jane, bob],
                  commits := [row_by ''deadbeef'' ''fix bug'' (Some 1),
                              row_by ''cafe'' ''more'' None,
                              row_by ''f00d'' ''last'' (Some 2)]\<rparr>)"
proof -
  let ?ev = "push_of [commit_by ''deadbeef'' ''fix bug'' ''Jane <jane@x.com>'',
                      commit_by ''cafe'' ''more'' long_raw,
                      commit_by ''f00d'' ''last'' ''Bob <bob@x.com>'']"
  have u: "authors_unique delivered_db"
    by (simp add: authors_unique_def scenario_defs)
  have g: "repository_get (org_id example_org) ''bitbucket'' (repository_uuid ?ev) delivered_db
             = Inr (example_repo\<lparr>repo_config_name := Some ''new/name''\<rparr>)"
    by (simp add: repository_get_def scenario_defs)
  have p: "\<forall>c \<in> set (event_commits ?ev).
             \<not> example_ignore (message c) \<longrightarrow> parsable example_parse_date c"
    by (simp add: event_commits_def get_commits_def parsable_def scenario_defs
          parse_jane parse_bob parse_long_raw)
  have run: "PushEventWebhook_call example_ignore example_parse_date example_org ?ev delivered_db
       = (None, delivered_db\<lparr>authors := [jane, bob],
                  commits := [row_by ''deadbeef'' ''fix bug'' (Some 1),
                              row_by ''cafe'' ''more'' None,
                              row_by ''f00d'' ''last'' (Some 2)]\<rparr>)"
    by (simp add: scenario_defs handler_defs parse_jane parse_bob parse_long_raw strip_bob
          long_email_length)
  show ?thesis
    using u g run handled_failures_stay_with_their_commit [OF u g p]
    by blast
qed

text \<open>
  Not only the missing repository ends a delivery early: a commit whose date does not
  parse raises ValueError out of both loops, after its author row has been created, and
  the commit after it, which is stored when delivered alone, is never reached.
\<close>

theorem unparsable_date_aborts_payload_counterexample:
  "repository_get (org_id example_org) ''bitbucket'' ''abc-123'' example_db = Inr example_repo
   \<and> PushEventWebhook_call example_ignore example_parse_date example_org
        (push_of [(commit_by ''deadbeef'' ''fix bug'' ''Jane <jane@x.com>'')\<lparr>date := ''yesterday''\<rparr>,
                  commit_by ''cafe'' ''more'' ''Jane <jane@x.com>'']) example_db
       = (Some ValueError, renamed_db\<lparr>authors := [jane]\<rparr>)
   \<and> commits (renamed_db\<lparr>authors := [jane]\<rparr>) = []
   \<and> PushEventWebhook_call example_ignore example_parse_date example_org
        (push_of [commit_by ''cafe'' ''more'' ''Jane <jane@x.com>'']) example_db
       = (None, renamed_db\<lparr>authors := [jane], commits := [row_by ''cafe'' ''more'' (Some 1)]\<rparr>)"
  by (simp add: scenario_defs handler_defs parse_jane strip_jane)

end
